(* ===== verification/Sniffer_Prelude.thy ===== *)
theory Sniffer_Prelude
  imports Main "HOL-Library.Word"
begin

unbundle bit_operations_syntax

text \<open>
  What every other theory shares: the machine types, the outcome type in which each
  early return, overflow and bad read of the Rust code is a value, checked arithmetic on
  \<open>usize\<close>, and the facts on words and byte lists that the component proofs use.

  An operation of the code returns an \<open>outcome\<close>: \<open>Inr x\<close> is the value \<open>x\<close>;
  \<open>Inl (Throw e)\<close> is the early return \<open>Err(e)\<close>; \<open>Inl Overflow\<close> is an integer
  operation leaving the range of its type (a panic in a debug build, a wrap-around in a
  release build) and \<open>Inl BadRead\<close> is a dereference of memory that is not mapped
  (undefined behaviour). The last two are never a value of the code: the \<open>no_fault\<close>
  theorems show that no run of it produces them, so that the build profile does not matter.
\<close>

section \<open>Machine types\<close>

type_synonym u8 = "8 word"
type_synonym u16 = "16 word"
type_synonym u32 = "32 word"
type_synonym i32 = "32 word"  \<comment> \<open>two's complement, read with \<open>sint\<close>\<close>
type_synonym usize = nat      \<comment> \<open>its 64-bit range is checked by the operations below\<close>
type_synonym bytes = "u8 list"

section \<open>Outcomes\<close>

named_theorems outcome_simps

datatype 'e exit = Throw 'e | Overflow | BadRead

type_synonym ('a, 'e) outcome = "'e exit + 'a"

definition and_then :: "('a, 'e) outcome \<Rightarrow> ('a \<Rightarrow> ('b, 'e) outcome) \<Rightarrow> ('b, 'e) outcome" where
  \<comment> \<open>the \<open>?\<close> operator: stop at the first early return\<close>
  "and_then m f = (case m of Inl e \<Rightarrow> Inl e | Inr x \<Rightarrow> f x)"

definition map_err :: "('a, 'e) outcome \<Rightarrow> 'f \<Rightarrow> ('a, 'f) outcome" where
  \<comment> \<open>\<open>map_err(|_| f)\<close>\<close>
  "map_err m f = (case m of
      Inl (Throw _) \<Rightarrow> Inl (Throw f)
    | Inl Overflow \<Rightarrow> Inl Overflow
    | Inl BadRead \<Rightarrow> Inl BadRead
    | Inr x \<Rightarrow> Inr x)"

definition match_result ::
    "('a, 'e) outcome \<Rightarrow> ('e \<Rightarrow> ('b, 'f) outcome) \<Rightarrow> ('a \<Rightarrow> ('b, 'f) outcome) \<Rightarrow> ('b, 'f) outcome" where
  \<comment> \<open>\<open>match m { Err(e) => h, Ok(x) => k }\<close>\<close>
  "match_result m h k = (case m of
      Inl (Throw e) \<Rightarrow> h e
    | Inl Overflow \<Rightarrow> Inl Overflow
    | Inl BadRead \<Rightarrow> Inl BadRead
    | Inr x \<Rightarrow> k x)"

definition ok_or :: "'a option \<Rightarrow> 'e \<Rightarrow> ('a, 'e) outcome" where
  "ok_or x e = (case x of None \<Rightarrow> Inl (Throw e) | Some v \<Rightarrow> Inr v)"

definition no_fault :: "('a, 'e) outcome \<Rightarrow> bool" where
  "no_fault m = (case m of Inl Overflow \<Rightarrow> False | Inl BadRead \<Rightarrow> False | _ \<Rightarrow> True)"

lemma and_then_simps [simp, outcome_simps]:
  "and_then (Inr x) f = f x"
  "and_then (Inl e) f = Inl e"
  by (simp_all add: and_then_def)

lemma and_then_Inr_iff: "and_then m f = Inr y \<longleftrightarrow> (\<exists>x. m = Inr x \<and> f x = Inr y)"
  by (cases m) simp_all

lemma and_then_if [outcome_simps]:
  "and_then (if b then m else n) f = (if b then and_then m f else and_then n f)"
  by simp

lemma map_err_simps [simp, outcome_simps]:
  "map_err (Inr x) f = Inr x"
  "map_err (Inl (Throw e)) f = Inl (Throw f)"
  "map_err (Inl Overflow) f = Inl Overflow"
  "map_err (Inl BadRead) f = Inl BadRead"
  by (simp_all add: map_err_def)

lemma match_result_simps [simp, outcome_simps]:
  "match_result (Inr x) h k = k x"
  "match_result (Inl (Throw e)) h k = h e"
  "match_result (Inl Overflow) h k = Inl Overflow"
  "match_result (Inl BadRead) h k = Inl BadRead"
  by (simp_all add: match_result_def)

lemma outcome_cases [case_names Throw Overflow BadRead Inr]:
  obtains e where "m = Inl (Throw e)" | "m = Inl Overflow" | "m = Inl BadRead" | x where "m = Inr x"
proof (cases m)
  case (Inl e)
  with that show ?thesis by (cases e) simp_all
qed (use that in simp)

lemma ok_or_simps [simp, outcome_simps]:
  "ok_or None e = Inl (Throw e)"
  "ok_or (Some v) e = Inr v"
  by (simp_all add: ok_or_def)

lemma ok_or_Inr_iff: "ok_or x e = Inr v \<longleftrightarrow> x = Some v"
  by (cases x) simp_all

lemma no_fault_simps [simp, outcome_simps]:
  "no_fault (Inr x)"
  "no_fault (Inl (Throw e))"
  "\<not> no_fault (Inl Overflow)"
  "\<not> no_fault (Inl BadRead)"
  by (simp_all add: no_fault_def)

lemma no_fault_ok_or [simp]: "no_fault (ok_or x e)"
  by (cases x) simp_all

lemma no_fault_and_then:
  "no_fault m \<Longrightarrow> (\<And>x. m = Inr x \<Longrightarrow> no_fault (f x)) \<Longrightarrow> no_fault (and_then m f)"
  by (cases m) (simp_all add: no_fault_def)

lemma no_faultE [elim]:
  assumes "no_fault m"
  obtains (throw) e where "m = Inl (Throw e)" | (ok) x where "m = Inr x"
  using assms by (auto simp: no_fault_def split: sum.splits exit.splits)

text \<open>Which errors a step can return: the error set of a chain is the union of its steps'.\<close>

definition throws_only :: "'e set \<Rightarrow> ('a, 'e) outcome \<Rightarrow> bool" where
  "throws_only E m \<longleftrightarrow> (\<forall>e. m = Inl (Throw e) \<longrightarrow> e \<in> E)"

lemma throws_only_simps [simp]:
  "throws_only E (Inr x)" "throws_only E (Inl Overflow)" "throws_only E (Inl BadRead)"
  "throws_only E (Inl (Throw e)) \<longleftrightarrow> e \<in> E"
  by (auto simp: throws_only_def)

lemma throws_only_and_then:
  "throws_only E m \<Longrightarrow> (\<And>x. m = Inr x \<Longrightarrow> throws_only E (f x)) \<Longrightarrow> throws_only E (and_then m f)"
  by (cases m) (auto simp: throws_only_def)

lemma throws_only_ok_or [simp]: "e \<in> E \<Longrightarrow> throws_only E (ok_or x e)"
  by (cases x) simp_all

lemma throws_onlyD: "throws_only E m \<Longrightarrow> m = Inl (Throw e) \<Longrightarrow> e \<in> E"
  by (simp add: throws_only_def)

section \<open>Checked arithmetic\<close>

definition usize_add :: "usize \<Rightarrow> usize \<Rightarrow> (usize, 'e) outcome" where
  "usize_add a b = (if a + b < 2 ^ 64 then Inr (a + b) else Inl Overflow)"

definition usize_sub :: "usize \<Rightarrow> usize \<Rightarrow> (usize, 'e) outcome" where
  "usize_sub a b = (if b \<le> a then Inr (a - b) else Inl Overflow)"

definition u8_mul :: "u8 \<Rightarrow> u8 \<Rightarrow> (u8, 'e) outcome" where
  "u8_mul a b = (if unat a * unat b < 2 ^ 8 then Inr (a * b) else Inl Overflow)"

lemma usize_add_ok [simp]: "a + b < 2 ^ 64 \<Longrightarrow> usize_add a b = Inr (a + b)"
  by (simp add: usize_add_def)

lemma usize_sub_ok [simp]: "b \<le> a \<Longrightarrow> usize_sub a b = Inr (a - b)"
  by (simp add: usize_sub_def)

lemma usize_Inr_iff [simp]:
  "usize_add a b = Inr c \<longleftrightarrow> a + b < 2 ^ 64 \<and> c = a + b"
  "usize_sub a b = Inr c \<longleftrightarrow> b \<le> a \<and> c = a - b"
  by (auto simp: usize_add_def usize_sub_def)

lemma throws_only_usize [simp]: "throws_only E (usize_add a b)" "throws_only E (usize_sub a b)"
  by (simp_all add: usize_add_def usize_sub_def)

section \<open>Integers from bytes\<close>

definition u16_from_be_bytes :: "bytes \<Rightarrow> u16" where
  \<comment> \<open>\<open>u16::from_be_bytes\<close> of a two-byte array\<close>
  "u16_from_be_bytes bs = ucast (bs ! 0) * 256 + ucast (bs ! 1)"

definition u32_from_be_bytes :: "bytes \<Rightarrow> u32" where
  "u32_from_be_bytes bs =
     ((ucast (bs ! 0) * 256 + ucast (bs ! 1)) * 256 + ucast (bs ! 2)) * 256 + ucast (bs ! 3)"

lemma unat_u8_lt [simp]: "unat (b :: u8) < 256"
  using unsigned_less [of b, where ?'a = nat] by simp

lemma unat_u8_le [simp]: "unat (b :: u8) \<le> 255"
  using unat_u8_lt [of b] by linarith

lemma two_bytes_no_wrap:
  fixes a b :: nat
  assumes "a < 256" and "b < 256"
  shows "(a mod 65536 * 256 mod 65536 + b mod 65536) mod 65536 = 256 * a + b"
  using assms by simp

lemma unat_u16_from_be_bytes: "unat (u16_from_be_bytes bs) = 256 * unat (bs ! 0) + unat (bs ! 1)"
proof -
  have "unat (bs ! 0) < 256" "unat (bs ! 1) < 256"
    by (rule unat_u8_lt)+
  then show ?thesis
    by (simp only: u16_from_be_bytes_def unat_word_ariths unsigned_ucast_eq take_bit_eq_mod)
       (simp add: two_bytes_no_wrap)
qed

lemma low_seven_bits: "(b :: u8) AND 0x7F = take_bit 7 b"
  by (simp add: take_bit_eq_mask mask_eq_exp_minus_1)

lemma unat_segment: "unat ((b :: u8) AND 0x7F) = unat b mod 128"
  unfolding low_seven_bits by (simp add: take_bit_eq_mod unat_mod)

lemma unat_low_nibble: "unat ((b :: u8) AND 0x0F) = unat b mod 16"
proof -
  have "b AND 0x0F = take_bit 4 b"
    by (simp add: take_bit_eq_mask mask_eq_exp_minus_1)
  then show ?thesis
    by (simp add: take_bit_eq_mod unat_mod)
qed

lemma unat_high_nibble: "unat (drop_bit 4 (b :: u8)) = unat b div 16"
  by (simp add: drop_bit_eq_div unat_div)

section \<open>Slices\<close>

definition get_range :: "'a list \<Rightarrow> usize \<Rightarrow> usize \<Rightarrow> 'a list option" where
  \<comment> \<open>\<open>buf.get(a..b)\<close>\<close>
  "get_range buf a b = (if a \<le> b \<and> b \<le> length buf then Some (take (b - a) (drop a buf)) else None)"

definition get_from :: "'a list \<Rightarrow> usize \<Rightarrow> 'a list option" where
  \<comment> \<open>\<open>buf.get(a..)\<close>\<close>
  "get_from buf a = (if a \<le> length buf then Some (drop a buf) else None)"

definition get_at :: "'a list \<Rightarrow> usize \<Rightarrow> 'a option" where
  \<comment> \<open>\<open>buf.get(i)\<close>\<close>
  "get_at buf i = (if i < length buf then Some (buf ! i) else None)"

lemma get_range_Some_iff:
  "get_range buf a b = Some s \<longleftrightarrow> a \<le> b \<and> b \<le> length buf \<and> s = take (b - a) (drop a buf)"
  by (auto simp: get_range_def)

lemma get_from_Some_iff: "get_from buf a = Some s \<longleftrightarrow> a \<le> length buf \<and> s = drop a buf"
  by (auto simp: get_from_def)

lemma get_at_Some_iff: "get_at buf i = Some x \<longleftrightarrow> i < length buf \<and> x = buf ! i"
  by (auto simp: get_at_def)

lemma get_range_append [simp]: "get_range (xs @ ys) 0 (length xs) = Some xs"
  by (simp add: get_range_def)

lemma take_two_eq: "i + 1 < length bs \<Longrightarrow> take 2 (drop i bs) = [bs ! i, bs ! Suc i]"
  by (simp add: numeral_2_eq_2 take_Suc_conv_app_nth)

lemma split_at: "i < length bs \<Longrightarrow> bs = take i bs @ bs ! i # drop (Suc i) bs"
  by (rule id_take_nth_drop)

end
