(* ===== verification/Ebpf_Context.thy ===== *)
theory Ebpf_Context
  imports Sniffer_Prelude
begin

text \<open>
  Packet memory as the XDP program sees it: \<open>ebpf/traits.rs\<close>, \<open>ebpf/utils.rs\<close>,
  \<open>ebpf/networking/xdp.rs\<close> and the macro \<open>extract!\<close> of \<open>macros.rs\<close>. The traits
  \<open>EbpfAction\<close> and \<open>EbpfContext\<close> have one implementation in the repository,
  \<open>xdp_action::Type\<close> and \<open>XdpContext\<close>, and the generic functions are modelled at it.

  A context holds the two addresses the kernel gives the program and the memory they point
  into, a partial map from addresses to bytes: outside the packet nothing is mapped, so a read
  past \<open>data_end\<close> is the fault \<open>BadRead\<close> and not a value. The hypothesis \<open>packet_ctx\<close>
  is what the kernel promises of a context: the packet's bytes lie between the two addresses,
  the first of which is not null, and no packet touches the last page of the address space.
\<close>

section \<open>Actions\<close>

datatype xdp_action =
    XDP_ABORTED | XDP_DROP | XDP_PASS | XDP_TX | XDP_REDIRECT
  | XDP_UNKNOWN u32  \<comment> \<open>a number the kernel gives no name\<close>

definition action_ok :: xdp_action where "action_ok = XDP_PASS"
definition action_drop :: xdp_action where "action_drop = XDP_DROP"
definition action_aborted :: xdp_action where "action_aborted = XDP_ABORTED"
definition action_default :: xdp_action where "action_default = action_aborted"

lemmas action_defs = action_ok_def action_drop_def action_aborted_def action_default_def

fun format_action :: "xdp_action \<Rightarrow> string" where
  "format_action XDP_ABORTED = ''ABORTED''"
| "format_action XDP_DROP = ''DROP''"
| "format_action XDP_PASS = ''PASS''"
| "format_action XDP_TX = ''TX''"
| "format_action XDP_REDIRECT = ''REDIRECT''"
| "format_action _ = ''UNKNOWN''"

section \<open>Contexts\<close>

record xdp_context =
  xdp_data :: usize
  xdp_data_end :: usize
  xdp_memory :: "usize \<rightharpoonup> u8"

definition ctx_start :: "xdp_context \<Rightarrow> usize" where
  "ctx_start ctx = xdp_data ctx"

definition ctx_end :: "xdp_context \<Rightarrow> usize" where
  "ctx_end ctx = xdp_data_end ctx"

definition ctx_len :: "xdp_context \<Rightarrow> (usize, xdp_action) outcome" where
  "ctx_len ctx = usize_sub (ctx_end ctx) (ctx_start ctx)"

definition ctx_is_empty :: "xdp_context \<Rightarrow> (bool, xdp_action) outcome" where
  "ctx_is_empty ctx = and_then (ctx_len ctx) (\<lambda>n. Inr (n = 0))"

definition ptr_at :: "nat \<Rightarrow> xdp_context \<Rightarrow> usize \<Rightarrow> (usize, xdp_action) outcome" where
  \<comment> \<open>\<open>ptr_at::<T>\<close>; the first argument is \<open>size_of::<T>()\<close>, the result an address\<close>
  "ptr_at sz ctx offset =
     (let start = ctx_start ctx; endp = ctx_end ctx; len = sz in
      and_then (usize_add start offset) (\<lambda>p.
      and_then (usize_add p len) (\<lambda>q.
      if q > endp then Inl (Throw action_default)
      else and_then (usize_add start offset) Inr)))"

definition ctx_index :: "nat \<Rightarrow> xdp_context \<Rightarrow> usize \<Rightarrow> (usize, xdp_action) outcome" where
  "ctx_index sz ctx i = ptr_at sz ctx i"

definition read_bytes :: "xdp_context \<Rightarrow> usize \<Rightarrow> nat \<Rightarrow> bytes option" where
  \<comment> \<open>the \<open>n\<close> bytes at an address, if they are all mapped\<close>
  "read_bytes ctx p n = those (map (xdp_memory ctx) [p..<p + n])"

definition extract_ref :: "nat \<Rightarrow> xdp_context \<Rightarrow> usize \<Rightarrow> (bytes, xdp_action) outcome" where
  \<comment> \<open>\<open>extract!\<close>: null is the aborted action; otherwise the pointee, all of whose
      \<open>sz\<close> bytes a Rust reference asserts to be readable\<close>
  "extract_ref sz ctx ptr =
     (if ptr = 0 then Inl (Throw action_aborted)
      else case read_bytes ctx ptr sz of None \<Rightarrow> Inl BadRead | Some bs \<Rightarrow> Inr bs)"

section \<open>What the kernel promises of a context\<close>

definition headroom :: nat where
  \<comment> \<open>the size of a page; no access of the program reaches further past the packet's start\<close>
  "headroom = 4096"

definition packet_ctx :: "xdp_context \<Rightarrow> bytes \<Rightarrow> bool" where
  "packet_ctx ctx bs \<longleftrightarrow>
     0 < xdp_data ctx \<and> xdp_data_end ctx = xdp_data ctx + length bs \<and>
     xdp_data_end ctx + headroom \<le> 2 ^ 64 \<and>
     (\<forall>i < length bs. xdp_memory ctx (xdp_data ctx + i) = Some (bs ! i))"

definition fake_packet_ctx :: "usize \<Rightarrow> bytes \<Rightarrow> xdp_context" where
  \<comment> \<open>\<open>FakePacket::new\<close> and \<open>ctx\<close> of the tests: the bytes alone, at a given low address\<close>
  "fake_packet_ctx start bs = \<lparr>xdp_data = start, xdp_data_end = start + length bs,
     xdp_memory = (\<lambda>p. if start \<le> p \<and> p < start + length bs then Some (bs ! (p - start)) else None)\<rparr>"

lemma fake_packet_ctx: "0 < start \<Longrightarrow> start + length bs + headroom \<le> 2 ^ 64 \<Longrightarrow>
    packet_ctx (fake_packet_ctx start bs) bs"
  by (simp add: packet_ctx_def fake_packet_ctx_def)

lemma those_map_Some: "(\<And>x. x \<in> set xs \<Longrightarrow> f x = Some (g x)) \<Longrightarrow> those (map f xs) = Some (map g xs)"
  by (induction xs) simp_all

lemma read_bytes_packet:
  assumes "packet_ctx ctx bs" and "off + n \<le> length bs"
  shows "read_bytes ctx (xdp_data ctx + off) n = Some (take n (drop off bs))"
proof -
  have "those (map (xdp_memory ctx) [xdp_data ctx + off..<xdp_data ctx + off + n])
      = Some (map (\<lambda>p. bs ! (p - xdp_data ctx)) [xdp_data ctx + off..<xdp_data ctx + off + n])"
  proof (rule those_map_Some)
    fix p assume "p \<in> set [xdp_data ctx + off..<xdp_data ctx + off + n]"
    then obtain i where "p = xdp_data ctx + i" "i < length bs"
      using assms(2) by (auto dest!: le_Suc_ex)
    with assms(1) show "xdp_memory ctx p = Some (bs ! (p - xdp_data ctx))"
      by (simp add: packet_ctx_def)
  qed
  also have "map (\<lambda>p. bs ! (p - xdp_data ctx)) [xdp_data ctx + off..<xdp_data ctx + off + n]
      = take n (drop off bs)"
    using assms(2) by (intro nth_equalityI) simp_all
  finally show ?thesis by (simp add: read_bytes_def)
qed

section \<open>The contract of \<open>EbpfContext::index\<close>\<close>

locale packet_access =
  fixes start :: "'c \<Rightarrow> usize"
    and packet :: "'c \<Rightarrow> bytes \<Rightarrow> bool"
    and index :: "nat \<Rightarrow> 'c \<Rightarrow> usize \<Rightarrow> (usize, 'a) outcome"
    and deref :: "nat \<Rightarrow> 'c \<Rightarrow> usize \<Rightarrow> (bytes, 'a) outcome"
    and short :: 'a
  assumes index_in: "packet c bs \<Longrightarrow> i + n \<le> length bs \<Longrightarrow> index n c i = Inr (start c + i)"
    and index_out: "packet c bs \<Longrightarrow> length bs < i + n \<Longrightarrow> i + n < headroom \<Longrightarrow>
      index n c i = Inl (Throw short)"
    and deref_in: "packet c bs \<Longrightarrow> i + n \<le> length bs \<Longrightarrow>
      deref n c (start c + i) = Inr (take n (drop i bs))"
begin

lemma load_eq:
  assumes "packet c bs" and "i + n < headroom"
  shows "and_then (index n c i) (deref n c) =
    (if i + n \<le> length bs then Inr (take n (drop i bs)) else Inl (Throw short))"
  using assms index_in index_out deref_in by (simp add: not_le)

lemma load_then:
  assumes "packet c bs" and "i + n < headroom"
  shows "and_then (index n c i) (\<lambda>p. and_then (deref n c p) k) =
    (if i + n \<le> length bs then k (take n (drop i bs)) else Inl (Throw short))"
  using assms index_in index_out deref_in by (simp add: not_le)

lemma load_no_fault:
  "packet c bs \<Longrightarrow> i + n < headroom \<Longrightarrow> no_fault (and_then (index n c i) (deref n c))"
  by (simp add: load_eq)

end

interpretation xdp: packet_access xdp_data packet_ctx ctx_index extract_ref XDP_ABORTED
proof unfold_locales
  fix ctx bs i n
  assume p: "packet_ctx ctx bs"
  {
    assume "i + n \<le> length bs"
    with p show "ctx_index n ctx i = Inr (xdp_data ctx + i)"
      by (simp add: ctx_index_def ptr_at_def Let_def ctx_start_def ctx_end_def packet_ctx_def headroom_def)
  next
    assume "length bs < i + n" "i + n < headroom"
    with p show "ctx_index n ctx i = Inl (Throw XDP_ABORTED)"
      by (simp add: ctx_index_def ptr_at_def Let_def ctx_start_def ctx_end_def packet_ctx_def
          headroom_def action_defs)
  next
    assume "i + n \<le> length bs"
    with p show "extract_ref n ctx (xdp_data ctx + i) = Inr (take n (drop i bs))"
      using read_bytes_packet [OF p] by (simp add: extract_ref_def packet_ctx_def)
  }
qed

lemma packet_ctx_bounds:
  assumes "packet_ctx ctx bs"
  shows "ctx_len ctx = Inr (length bs)"
    and "ctx_end ctx = ctx_start ctx + length bs"
    and "k < headroom \<Longrightarrow> ctx_start ctx + k < 2 ^ 64"
  using assms by (simp_all add: packet_ctx_def ctx_len_def ctx_end_def ctx_start_def headroom_def)

end
