(* ===== verification/Rust_Macros.thy ===== *)
theory Rust_Macros
  imports Sniffer_Prelude
begin

text \<open>
  The slice macros of \<open>src/sniffer/mc-sniffer-common/src/macros.rs\<close>. Each expands to a
  \<open>get\<close> on the slice and the \<open>?\<close> operator, so an access out of range is the early
  return of the error given to the macro and never a panic. A macro used with a range, an
  open range and an index is one definition per shape. The third macro, \<open>extract!\<close>, works
  on packet memory and is defined with it in the theory \<open>Ebpf_Context\<close>.
\<close>

definition checked_slice_range :: "bytes \<Rightarrow> usize \<Rightarrow> usize \<Rightarrow> 'e \<Rightarrow> (bytes, 'e) outcome" where
  "checked_slice_range buf a b error = ok_or (get_range buf a b) error"

definition checked_slice_from :: "bytes \<Rightarrow> usize \<Rightarrow> 'e \<Rightarrow> (bytes, 'e) outcome" where
  "checked_slice_from buf a error = ok_or (get_from buf a) error"

definition checked_slice_at :: "bytes \<Rightarrow> usize \<Rightarrow> 'e \<Rightarrow> (u8, 'e) outcome" where
  "checked_slice_at buf i error = ok_or (get_at buf i) error"

definition array_of_slice :: "nat \<Rightarrow> bytes \<Rightarrow> bytes option" where
  \<comment> \<open>\<open><[u8; n]>::try_from\<close>: fails unless the slice has exactly \<open>n\<close> bytes\<close>
  "array_of_slice n s = (if length s = n then Some s else None)"

definition try_slice_into :: "nat \<Rightarrow> bytes \<Rightarrow> usize \<Rightarrow> usize \<Rightarrow> 'e \<Rightarrow> (bytes, 'e) outcome" where
  \<comment> \<open>\<open>n\<close> is the length of the array type the context expects\<close>
  "try_slice_into n buf a b error =
     and_then (checked_slice_range buf a b error) (\<lambda>s. ok_or (array_of_slice n s) error)"

section \<open>Facts\<close>

lemma checked_slice_range_Inr [simp]:
  "checked_slice_range buf a b e = Inr s \<longleftrightarrow> a \<le> b \<and> b \<le> length buf \<and> s = take (b - a) (drop a buf)"
  by (simp add: checked_slice_range_def ok_or_Inr_iff get_range_Some_iff)

lemma checked_slice_from_Inr [simp]:
  "checked_slice_from buf a e = Inr s \<longleftrightarrow> a \<le> length buf \<and> s = drop a buf"
  by (simp add: checked_slice_from_def ok_or_Inr_iff get_from_Some_iff)

lemma checked_slice_at_Inr [simp]:
  "checked_slice_at buf i e = Inr b \<longleftrightarrow> i < length buf \<and> b = buf ! i"
  by (simp add: checked_slice_at_def ok_or_Inr_iff get_at_Some_iff)

lemma checked_slice_range_eq:
  "checked_slice_range buf a b e =
     (if a \<le> b \<and> b \<le> length buf then Inr (take (b - a) (drop a buf)) else Inl (Throw e))"
  by (simp add: checked_slice_range_def get_range_def)

lemma checked_slice_from_eq:
  "checked_slice_from buf a e = (if a \<le> length buf then Inr (drop a buf) else Inl (Throw e))"
  by (simp add: checked_slice_from_def get_from_def)

lemma checked_slice_at_eq:
  "checked_slice_at buf i e = (if i < length buf then Inr (buf ! i) else Inl (Throw e))"
  by (simp add: checked_slice_at_def get_at_def)

text \<open>Where the range has the array's length, the conversion to an array cannot fail.\<close>

lemma try_slice_into_eq:
  "b = a + n \<Longrightarrow> try_slice_into n buf a b e =
     (if b \<le> length buf then Inr (take n (drop a buf)) else Inl (Throw e))"
  by (auto simp: try_slice_into_def checked_slice_range_eq array_of_slice_def)

lemma no_fault_slices [simp]:
  "no_fault (checked_slice_range buf a b e)"
  "no_fault (checked_slice_from buf a e)"
  "no_fault (checked_slice_at buf i e)"
  by (simp_all add: checked_slice_range_def checked_slice_from_def checked_slice_at_def)

lemma no_fault_try_slice_into [simp]: "no_fault (try_slice_into n buf a b e)"
  unfolding try_slice_into_def by (rule no_fault_and_then) simp_all

lemma throws_only_slices [simp]:
  "e \<in> E \<Longrightarrow> throws_only E (checked_slice_range buf a b e)"
  "e \<in> E \<Longrightarrow> throws_only E (checked_slice_from buf a e)"
  "e \<in> E \<Longrightarrow> throws_only E (checked_slice_at buf i e)"
  "e \<in> E \<Longrightarrow> throws_only E (try_slice_into n buf a b e)"
  by (simp_all add: checked_slice_range_def checked_slice_from_def checked_slice_at_def
      try_slice_into_def throws_only_and_then)

end
