(* ===== verification/Network_Types.thy ===== *)
theory Network_Types
  imports Sniffer_Prelude
begin

unbundle bit_operations_syntax

text \<open>
  The crate \<open>network-types\<close> is not part of the repository: its header types are a parameter
  of the model, a record of the functions the code calls on them. A header is its bytes.
  Integer results whose type the calls do not show are natural numbers. What the code relies on
  is the hypothesis \<open>header_layout\<close>: the sizes and the fields of the three headers
  as RFC 791, RFC 793 and IEEE 802.3 lay them out, which the crate documents and the comments
  of \<open>ipv4.rs\<close>, \<open>tcp.rs\<close> and \<open>net.rs\<close> repeat. Nothing is assumed on protocol numbers
  other than TCP's: which of them \<open>proto\<close> knows is the crate's business.

  The locale \<open>net_headers\<close> is the interface over that hypothesis; \<open>rfc_headers\<close>, the
  reading of the RFCs as functions, interprets it.
\<close>

section \<open>The functions the code calls\<close>

datatype ether_type = EtherType_Ipv4 | EtherType_other u16
datatype ip_proto = IpProto_Tcp | IpProto_other u8
datatype ip_error = InvalidProto u8

record network_types =
  EthHdr_size :: usize                       \<comment> \<open>\<open>size_of::<EthHdr>()\<close>\<close>
  EthHdr_LEN :: usize
  eth_ether_type :: "bytes \<Rightarrow> u16 + ether_type"  \<comment> \<open>\<open>Err\<close> on the left\<close>
  Ipv4Hdr_size :: usize
  Ipv4Hdr_LEN :: usize
  ip_version :: "bytes \<Rightarrow> nat"
  ip_ihl :: "bytes \<Rightarrow> nat"
  ip_tot_len :: "bytes \<Rightarrow> nat"
  ip_proto :: "bytes \<Rightarrow> ip_error + ip_proto"
  ip_frag_offset :: "bytes \<Rightarrow> nat"
  ip_frag_flags :: "bytes \<Rightarrow> u8"
  ip_src_addr :: "bytes \<Rightarrow> u32"              \<comment> \<open>after \<open>.into()\<close>\<close>
  ip_dst_addr :: "bytes \<Rightarrow> u32"
  TcpHdr_size :: usize
  tcp_source :: "bytes \<Rightarrow> bytes"             \<comment> \<open>the field \<open>source: [u8; 2]\<close>\<close>
  tcp_dest :: "bytes \<Rightarrow> bytes"
  tcp_doff :: "bytes \<Rightarrow> nat"
  tcp_fin :: "bytes \<Rightarrow> nat"
  tcp_syn :: "bytes \<Rightarrow> nat"
  tcp_rst :: "bytes \<Rightarrow> nat"
  tcp_psh :: "bytes \<Rightarrow> nat"
  tcp_ack :: "bytes \<Rightarrow> nat"

section \<open>What the code relies on\<close>

definition eth_layout :: "network_types \<Rightarrow> bool" where
  "eth_layout N \<longleftrightarrow> EthHdr_size N = 14 \<and> EthHdr_LEN N = 14 \<and>
     (\<forall>h. length h = 14 \<longrightarrow>
       (eth_ether_type N h = Inr EtherType_Ipv4 \<longleftrightarrow> u16_from_be_bytes [h ! 12, h ! 13] = 0x0800))"

definition ip_layout :: "network_types \<Rightarrow> bool" where
  "ip_layout N \<longleftrightarrow> Ipv4Hdr_size N = 20 \<and> Ipv4Hdr_LEN N = 20 \<and>
     (\<forall>h. length h = 20 \<longrightarrow>
       ip_version N h = unat (drop_bit 4 (h ! 0)) \<and>
       ip_ihl N h = 4 * unat (h ! 0 AND 0x0F) \<and>
       ip_tot_len N h = unat (u16_from_be_bytes [h ! 2, h ! 3]) \<and>
       (ip_proto N h = Inr IpProto_Tcp \<longleftrightarrow> h ! 9 = 6) \<and>
       ip_frag_offset N h = unat (u16_from_be_bytes [h ! 6, h ! 7] AND 0x1FFF) \<and>
       ip_frag_flags N h = drop_bit 5 (h ! 6) \<and>
       ip_src_addr N h = u32_from_be_bytes [h ! 12, h ! 13, h ! 14, h ! 15] \<and>
       ip_dst_addr N h = u32_from_be_bytes [h ! 16, h ! 17, h ! 18, h ! 19])"

definition tcp_layout :: "network_types \<Rightarrow> bool" where
  "tcp_layout N \<longleftrightarrow> TcpHdr_size N = 20 \<and>
     (\<forall>h. length h = 20 \<longrightarrow>
       tcp_source N h = [h ! 0, h ! 1] \<and> tcp_dest N h = [h ! 2, h ! 3] \<and>
       tcp_doff N h = unat (drop_bit 4 (h ! 12)) \<and>
       (tcp_fin N h \<noteq> 0 \<longleftrightarrow> bit (h ! 13) 0) \<and>
       (tcp_syn N h \<noteq> 0 \<longleftrightarrow> bit (h ! 13) 1) \<and>
       (tcp_rst N h \<noteq> 0 \<longleftrightarrow> bit (h ! 13) 2) \<and>
       (tcp_psh N h \<noteq> 0 \<longleftrightarrow> bit (h ! 13) 3) \<and>
       (tcp_ack N h \<noteq> 0 \<longleftrightarrow> bit (h ! 13) 4))"

definition header_layout :: "network_types \<Rightarrow> bool" where
  "header_layout N \<longleftrightarrow> eth_layout N \<and> ip_layout N \<and> tcp_layout N"

locale net_headers =
  fixes N :: network_types
  assumes layout: "header_layout N"
begin

lemma sizes [simp]:
  "EthHdr_size N = 14" "EthHdr_LEN N = 14" "Ipv4Hdr_size N = 20" "Ipv4Hdr_LEN N = 20"
  "TcpHdr_size N = 20"
  using layout by (simp_all add: header_layout_def eth_layout_def ip_layout_def tcp_layout_def)

lemma ether_type_iff:
  "length h = 14 \<Longrightarrow>
    eth_ether_type N h = Inr EtherType_Ipv4 \<longleftrightarrow> u16_from_be_bytes [h ! 12, h ! 13] = 0x0800"
  using layout by (simp add: header_layout_def eth_layout_def)

lemma ip_fields:
  assumes "length h = 20"
  shows "ip_version N h = unat (h ! 0) div 16"
    and "ip_ihl N h = 4 * (unat (h ! 0) mod 16)"
    and "ip_tot_len N h = 256 * unat (h ! 2) + unat (h ! 3)"
    and "ip_proto N h = Inr IpProto_Tcp \<longleftrightarrow> h ! 9 = 6"
    and "ip_src_addr N h = u32_from_be_bytes [h ! 12, h ! 13, h ! 14, h ! 15]"
    and "ip_dst_addr N h = u32_from_be_bytes [h ! 16, h ! 17, h ! 18, h ! 19]"
    and "ip_frag_offset N h = unat (u16_from_be_bytes [h ! 6, h ! 7] AND 0x1FFF)"
    and "ip_frag_flags N h = drop_bit 5 (h ! 6)"
proof -
  from layout assms have l:
    "ip_version N h = unat (drop_bit 4 (h ! 0))"
    "ip_ihl N h = 4 * unat (h ! 0 AND 0x0F)"
    "ip_tot_len N h = unat (u16_from_be_bytes [h ! 2, h ! 3])"
    "ip_proto N h = Inr IpProto_Tcp \<longleftrightarrow> h ! 9 = 6"
    "ip_frag_offset N h = unat (u16_from_be_bytes [h ! 6, h ! 7] AND 0x1FFF)"
    "ip_frag_flags N h = drop_bit 5 (h ! 6)"
    "ip_src_addr N h = u32_from_be_bytes [h ! 12, h ! 13, h ! 14, h ! 15]"
    "ip_dst_addr N h = u32_from_be_bytes [h ! 16, h ! 17, h ! 18, h ! 19]"
    unfolding header_layout_def ip_layout_def by blast+
  show "ip_version N h = unat (h ! 0) div 16"
    by (simp only: l unat_high_nibble)
  show "ip_ihl N h = 4 * (unat (h ! 0) mod 16)"
    by (simp only: l unat_low_nibble)
  show "ip_tot_len N h = 256 * unat (h ! 2) + unat (h ! 3)"
    by (simp only: l unat_u16_from_be_bytes) simp
qed (use layout assms in \<open>simp_all add: header_layout_def ip_layout_def\<close>)

lemma tcp_fields:
  assumes "length h = 20"
  shows "tcp_source N h = [h ! 0, h ! 1]" and "tcp_dest N h = [h ! 2, h ! 3]"
    and "tcp_doff N h = unat (h ! 12) div 16"
    and "tcp_fin N h \<noteq> 0 \<longleftrightarrow> bit (h ! 13) 0" and "tcp_syn N h \<noteq> 0 \<longleftrightarrow> bit (h ! 13) 1"
    and "tcp_rst N h \<noteq> 0 \<longleftrightarrow> bit (h ! 13) 2" and "tcp_psh N h \<noteq> 0 \<longleftrightarrow> bit (h ! 13) 3"
    and "tcp_ack N h \<noteq> 0 \<longleftrightarrow> bit (h ! 13) 4"
proof -
  from layout assms have l:
    "tcp_source N h = [h ! 0, h ! 1]" "tcp_dest N h = [h ! 2, h ! 3]"
    "tcp_doff N h = unat (drop_bit 4 (h ! 12))"
    "tcp_fin N h \<noteq> 0 \<longleftrightarrow> bit (h ! 13) 0" "tcp_syn N h \<noteq> 0 \<longleftrightarrow> bit (h ! 13) 1"
    "tcp_rst N h \<noteq> 0 \<longleftrightarrow> bit (h ! 13) 2" "tcp_psh N h \<noteq> 0 \<longleftrightarrow> bit (h ! 13) 3"
    "tcp_ack N h \<noteq> 0 \<longleftrightarrow> bit (h ! 13) 4"
    unfolding header_layout_def tcp_layout_def by blast+
  show "tcp_doff N h = unat (h ! 12) div 16"
    by (simp only: l unat_high_nibble)
qed (use layout assms in \<open>simp_all add: header_layout_def tcp_layout_def\<close>)

lemma ihl_le: "length h = 20 \<Longrightarrow> ip_ihl N h \<le> 60"
  by (simp add: ip_fields)

lemma doff_le: "length h = 20 \<Longrightarrow> tcp_doff N h \<le> 15"
proof -
  assume h: "length h = 20"
  have "unat (h ! 12) div 16 < 16"
    by (rule less_mult_imp_div_less) simp
  then show ?thesis by (simp add: tcp_fields [OF h])
qed

end

section \<open>The RFCs as functions\<close>

definition rfc_headers :: network_types where
  "rfc_headers = \<lparr>
     EthHdr_size = 14, EthHdr_LEN = 14,
     eth_ether_type = (\<lambda>h. let t = u16_from_be_bytes [h ! 12, h ! 13]
        in if t = 0x0800 then Inr EtherType_Ipv4 else Inr (EtherType_other t)),
     Ipv4Hdr_size = 20, Ipv4Hdr_LEN = 20,
     ip_version = (\<lambda>h. unat (drop_bit 4 (h ! 0))),
     ip_ihl = (\<lambda>h. 4 * unat (h ! 0 AND 0x0F)),
     ip_tot_len = (\<lambda>h. unat (u16_from_be_bytes [h ! 2, h ! 3])),
     ip_proto = (\<lambda>h. if h ! 9 = 6 then Inr IpProto_Tcp
        else if h ! 9 < 144 then Inr (IpProto_other (h ! 9)) else Inl (InvalidProto (h ! 9))),
     ip_frag_offset = (\<lambda>h. unat (u16_from_be_bytes [h ! 6, h ! 7] AND 0x1FFF)),
     ip_frag_flags = (\<lambda>h. drop_bit 5 (h ! 6)),
     ip_src_addr = (\<lambda>h. u32_from_be_bytes [h ! 12, h ! 13, h ! 14, h ! 15]),
     ip_dst_addr = (\<lambda>h. u32_from_be_bytes [h ! 16, h ! 17, h ! 18, h ! 19]),
     TcpHdr_size = 20,
     tcp_source = (\<lambda>h. [h ! 0, h ! 1]), tcp_dest = (\<lambda>h. [h ! 2, h ! 3]),
     tcp_doff = (\<lambda>h. unat (drop_bit 4 (h ! 12))),
     tcp_fin = (\<lambda>h. of_bool (bit (h ! 13) 0)), tcp_syn = (\<lambda>h. of_bool (bit (h ! 13) 1)),
     tcp_rst = (\<lambda>h. of_bool (bit (h ! 13) 2)), tcp_psh = (\<lambda>h. of_bool (bit (h ! 13) 3)),
     tcp_ack = (\<lambda>h. of_bool (bit (h ! 13) 4)) \<rparr>"

lemma rfc_headers_layout: "header_layout rfc_headers"
  by (simp add: header_layout_def eth_layout_def ip_layout_def tcp_layout_def rfc_headers_def Let_def)

interpretation rfc: net_headers rfc_headers
  by unfold_locales (rule rfc_headers_layout)

end
