(* ===== verification/Fixtures.thy ===== *)
theory Fixtures
  imports Sniffer_Prelude
begin

unbundle bit_operations_syntax

text \<open>
  The frames the repository's own tests are built from: \<open>LOCALHOST_LOGIN_FRAME\<close> of \<open>net.rs\<close>
  (the same bytes are \<open>VALID_FRAME\<close> of \<open>ipv4.rs\<close> and \<open>tcp.rs\<close>) and the wrapper \<open>tcp_frame\<close> of
  \<open>ebpf/test_support.rs\<close>. The witnesses run the model on them.
\<close>

definition LOCALHOST_LOGIN_FRAME :: bytes where
  "LOCALHOST_LOGIN_FRAME = [
     0x02, 0x00, 0x00, 0x00, 0x00, 0x01,
     0x02, 0x00, 0x00, 0x00, 0x00, 0x02,
     0x08, 0x00,
     0x45, 0x00,
     0x00, 0x39,
     0x12, 0x34,
     0x00, 0x00,
     0x40, 0x06,
     0x00, 0x00,
     0x0A, 0x00, 0x01, 0x04,
     0x0A, 0x2B, 0xFF, 0x41,
     0xD4, 0x31,
     0x63, 0xDD,
     0x00, 0x00, 0x00, 0x01,
     0x00, 0x00, 0x00, 0x01,
     0x50, 0x18,
     0x20, 0x00,
     0x00, 0x00,
     0x00, 0x00,
     0x10, 0x00, 0x81, 0x06, 0x09,
     0x6C, 0x6F, 0x63, 0x61, 0x6C, 0x68, 0x6F, 0x73, 0x74,
     0x63, 0xDD, 0x02]"

definition tcp_frame :: "bytes \<Rightarrow> bytes" where
  \<comment> \<open>for a payload of at most 65495 bytes: above, the code's \<open>u16::try_from\<close> panics\<close>
  "tcp_frame payload =
     (let total_len = word_of_nat (20 + 20 + length payload) :: u16;
          len_hi = ucast (drop_bit 8 total_len) :: u8;
          len_lo = ucast total_len :: u8
      in [0x02, 0x00, 0x00, 0x00, 0x00, 0x01,
          0x02, 0x00, 0x00, 0x00, 0x00, 0x02,
          0x08, 0x00,
          0x45, 0x00, len_hi, len_lo,
          0x12, 0x34, 0x40, 0x00,
          0x40, 0x06, 0x00, 0x00,
          0x0A, 0x00, 0x01, 0x04,
          0x0A, 0x2B, 0xFF, 0x41,
          0xD4, 0x31, 0x63, 0xDD,
          0x00, 0x00, 0x00, 0x01,
          0x00, 0x00, 0x00, 0x01,
          0x50, 0x18, 0x20, 0x00,
          0x00, 0x00, 0x00, 0x00] @ payload)"

text \<open>The payloads and the handshake builder of the tests of \<open>ebpf/minecraft.rs\<close>.\<close>

definition localhost_login_wire :: bytes where
  "localhost_login_wire = [0x10, 0x00, 0x81, 0x06, 0x09] @
     [0x6C, 0x6F, 0x63, 0x61, 0x6C, 0x68, 0x6F, 0x73, 0x74] @ [0x63, 0xDD, 0x02]"

definition domain_status_wire :: bytes where
  "domain_status_wire = [0x17, 0x00, 0x81, 0x06, 0x10] @
     [0x70, 0x6C, 0x61, 0x79, 0x2E, 0x65, 0x78, 0x61, 0x6D, 0x70, 0x6C, 0x65, 0x2E, 0x63, 0x6F, 0x6D] @
     [0x63, 0xDD, 0x01]"

function address_len_bytes :: "nat \<Rightarrow> bytes" where
  \<comment> \<open>the builder's \<open>loop\<close>: seven bits a turn until nothing is left\<close>
  "address_len_bytes addr_len =
     (let byte = word_of_nat (addr_len mod 2 ^ 7); addr_len = addr_len div 2 ^ 7
      in if addr_len = 0 then [byte] else (byte OR 0x80) # address_len_bytes addr_len)"
  by pat_completeness auto
termination
  by (relation "measure id") (auto simp: div_eq_0_iff)

declare address_len_bytes.simps [simp del]

definition handshake_wire :: "bytes \<Rightarrow> u8 \<Rightarrow> bytes option" where
  \<comment> \<open>\<open>None\<close> where one of the builder's \<open>try_from(..).unwrap()\<close> panics\<close>
  "handshake_wire address next_state =
     (if 2 ^ 32 \<le> length address then None else
      let body = [0x00, 0x81, 0x06] @ address_len_bytes (length address) @ address @ [0x63, 0xDD, next_state];
          body_len = length body in
      if 2 ^ 16 \<le> body_len then None
      else if body_len < 0x80 then Some ([word_of_nat body_len] @ body)
      else if 2 ^ 8 \<le> body_len div 2 ^ 7 then None
      else Some ([word_of_nat (body_len mod 2 ^ 7) OR 0x80, word_of_nat (body_len div 2 ^ 7)] @ body))"

end
