(* ===== verification/Net.thy ===== *)
theory Net
  imports Rust_Macros Network_Types Fixtures
begin

unbundle bit_operations_syntax

text \<open>
  The slice parsers of the three headers,
  \<open>src/sniffer/mc-sniffer-common/src/networking/net.rs\<close>: \<open>parse_ethernet\<close>,
  \<open>parse_ipv4\<close>, \<open>parse_tcp\<close>, the type \<open>TcpFlags\<close> (shared with the packet-memory parser)
  and the file's structs, constants and errors. The slices a parser hands back are byte lists.
\<close>

section \<open>Constants and types\<close>

definition ETHERTYPE_IPV4 :: u16 where
  "ETHERTYPE_IPV4 = 0x0800"

definition IP_PROTOCOL_TCP :: u8 where
  "IP_PROTOCOL_TCP = 6"

record ethernet_frame =
  ef_ethertype :: u16
  ef_payload :: bytes

record ipv4_header =
  ih_protocol :: u8
  ih_source :: bytes        \<comment> \<open>\<open>[u8; 4]\<close>\<close>
  ih_destination :: bytes

record ipv4_slice =
  is_header :: ipv4_header
  is_payload :: bytes

datatype tcp_flags = TcpFlags u8

definition FIN_BIT :: u8 where "FIN_BIT = 0b00000001"
definition SYN_BIT :: u8 where "SYN_BIT = 0b00000010"
definition RST_BIT :: u8 where "RST_BIT = 0b00000100"
definition PSH_BIT :: u8 where "PSH_BIT = 0b00001000"
definition ACK_BIT :: u8 where "ACK_BIT = 0b00010000"

lemmas flag_bits = FIN_BIT_def SYN_BIT_def RST_BIT_def PSH_BIT_def ACK_BIT_def

definition tcp_flags_from_u8 :: "u8 \<Rightarrow> tcp_flags" where
  "tcp_flags_from_u8 flag = TcpFlags flag"

definition tcp_flags_from_header :: "network_types \<Rightarrow> bytes \<Rightarrow> tcp_flags" where
  "tcp_flags_from_header N header =
     (let flags = 0;
          flags = (if tcp_fin N header \<noteq> 0 then flags OR FIN_BIT else flags);
          flags = (if tcp_syn N header \<noteq> 0 then flags OR SYN_BIT else flags);
          flags = (if tcp_rst N header \<noteq> 0 then flags OR RST_BIT else flags);
          flags = (if tcp_psh N header \<noteq> 0 then flags OR PSH_BIT else flags);
          flags = (if tcp_ack N header \<noteq> 0 then flags OR ACK_BIT else flags)
      in TcpFlags flags)"

fun is_fin :: "tcp_flags \<Rightarrow> bool" where
  "is_fin (TcpFlags f) \<longleftrightarrow> f AND FIN_BIT \<noteq> 0"

fun is_syn :: "tcp_flags \<Rightarrow> bool" where
  "is_syn (TcpFlags f) \<longleftrightarrow> f AND SYN_BIT \<noteq> 0"

fun is_rst :: "tcp_flags \<Rightarrow> bool" where
  "is_rst (TcpFlags f) \<longleftrightarrow> f AND RST_BIT \<noteq> 0"

fun is_psh :: "tcp_flags \<Rightarrow> bool" where
  "is_psh (TcpFlags f) \<longleftrightarrow> f AND PSH_BIT \<noteq> 0"

fun is_ack :: "tcp_flags \<Rightarrow> bool" where
  "is_ack (TcpFlags f) \<longleftrightarrow> f AND ACK_BIT \<noteq> 0"

record tcp_segment =
  ts_source_port :: u16
  ts_destination_port :: u16
  ts_flags :: tcp_flags
  ts_payload :: bytes

datatype net_error =
    TooShort
  | UnsupportedEthertype u16
  | UnsupportedIpVersion u8
  | UnsupportedIpProtocol u8

section \<open>Operations\<close>

definition parse_ethernet :: "bytes \<Rightarrow> (ethernet_frame, net_error) outcome" where
  "parse_ethernet frame =
     and_then (try_slice_into 2 frame 12 14 TooShort) (\<lambda>t.
     and_then (checked_slice_from frame 14 TooShort) (\<lambda>payload.
       Inr \<lparr>ef_ethertype = u16_from_be_bytes t, ef_payload = payload\<rparr>))"

definition parse_ipv4 :: "bytes \<Rightarrow> (ipv4_slice, net_error) outcome" where
  "parse_ipv4 packet =
     (if packet = [] \<or> length packet < 20 then Inl (Throw TooShort) else
      and_then (checked_slice_at packet 0 TooShort) (\<lambda>first_byte.
      let ip_version = drop_bit 4 first_byte in
      if ip_version \<noteq> 4 then Inl (Throw (UnsupportedIpVersion ip_version)) else
      and_then (u8_mul (first_byte AND 0x0F) 4) (\<lambda>ihl.
      let header_len = unat ihl in
      and_then (checked_slice_at packet 9 TooShort) (\<lambda>protocol.
      if protocol \<noteq> IP_PROTOCOL_TCP then Inl (Throw (UnsupportedIpProtocol protocol)) else
      and_then (try_slice_into 2 packet 2 4 TooShort) (\<lambda>tl.
      let total_len = unat (u16_from_be_bytes tl) in
      and_then (try_slice_into 4 packet 12 16 TooShort) (\<lambda>source.
      and_then (try_slice_into 4 packet 16 20 TooShort) (\<lambda>destination.
      and_then (checked_slice_range packet header_len total_len TooShort) (\<lambda>payload.
        Inr \<lparr>is_header = \<lparr>ih_protocol = protocol, ih_source = source, ih_destination = destination\<rparr>,
             is_payload = payload\<rparr>))))))))"

definition parse_tcp :: "bytes \<Rightarrow> (tcp_segment, net_error) outcome" where
  "parse_tcp segment =
     and_then (checked_slice_at segment 12 TooShort) (\<lambda>header_byte.
     and_then (u8_mul (drop_bit 4 header_byte) 4) (\<lambda>doff.
     let header_len = unat doff in
     if length segment < header_len \<or> header_len < 20 then Inl (Throw TooShort) else
     and_then (try_slice_into 2 segment 0 2 TooShort) (\<lambda>source.
     and_then (try_slice_into 2 segment 2 4 TooShort) (\<lambda>destination.
     and_then (checked_slice_at segment 13 TooShort) (\<lambda>flags.
     and_then (checked_slice_from segment header_len TooShort) (\<lambda>payload.
       Inr \<lparr>ts_source_port = u16_from_be_bytes source,
            ts_destination_port = u16_from_be_bytes destination,
            ts_flags = tcp_flags_from_u8 flags,
            ts_payload = payload\<rparr>))))))"

section \<open>Flags\<close>

lemma flag_iff_bit:
  "f AND FIN_BIT \<noteq> 0 \<longleftrightarrow> bit f 0" "f AND SYN_BIT \<noteq> 0 \<longleftrightarrow> bit f 1" "f AND RST_BIT \<noteq> 0 \<longleftrightarrow> bit f 2"
  "f AND PSH_BIT \<noteq> 0 \<longleftrightarrow> bit f 3" "f AND ACK_BIT \<noteq> 0 \<longleftrightarrow> bit f 4"
  using and_exp_eq_0_iff_not_bit [of f 0] and_exp_eq_0_iff_not_bit [of f 1]
    and_exp_eq_0_iff_not_bit [of f 2] and_exp_eq_0_iff_not_bit [of f 3]
    and_exp_eq_0_iff_not_bit [of f 4]
  by (simp_all add: flag_bits)

lemma tcp_flags_from_header_bits:
  "is_fin (tcp_flags_from_header N h) \<longleftrightarrow> tcp_fin N h \<noteq> 0"
  "is_syn (tcp_flags_from_header N h) \<longleftrightarrow> tcp_syn N h \<noteq> 0"
  "is_rst (tcp_flags_from_header N h) \<longleftrightarrow> tcp_rst N h \<noteq> 0"
  "is_psh (tcp_flags_from_header N h) \<longleftrightarrow> tcp_psh N h \<noteq> 0"
  "is_ack (tcp_flags_from_header N h) \<longleftrightarrow> tcp_ack N h \<noteq> 0"
  by (simp_all add: tcp_flags_from_header_def Let_def flag_bits)

lemma tcp_flags_from_both:
  assumes "header_layout N" and "length h = 20"
  shows "is_fin (tcp_flags_from_header N h) = is_fin (tcp_flags_from_u8 (h ! 13)) \<and>
    is_syn (tcp_flags_from_header N h) = is_syn (tcp_flags_from_u8 (h ! 13)) \<and>
    is_rst (tcp_flags_from_header N h) = is_rst (tcp_flags_from_u8 (h ! 13)) \<and>
    is_psh (tcp_flags_from_header N h) = is_psh (tcp_flags_from_u8 (h ! 13)) \<and>
    is_ack (tcp_flags_from_header N h) = is_ack (tcp_flags_from_u8 (h ! 13))"
  using net_headers.tcp_fields(4-8) [OF net_headers.intro, OF assms]
  unfolding tcp_flags_from_header_bits by (simp only: tcp_flags_from_u8_def is_fin.simps
      is_syn.simps is_rst.simps is_psh.simps is_ack.simps flag_iff_bit simp_thms)

section \<open>The header lengths do not overflow a byte\<close>

lemma u8_mul_ihl: "u8_mul (b AND 0x0F) 4 = Inr ((b AND 0x0F) * 4)"
  and unat_ihl: "unat ((b AND 0x0F) * 4 :: u8) = 4 * (unat b mod 16)"
proof -
  have lt: "unat b mod 16 < 16" by simp
  have n: "unat (b AND 0x0F) = unat b mod 16" by (rule unat_low_nibble)
  show "u8_mul (b AND 0x0F) 4 = Inr ((b AND 0x0F) * 4)"
    using lt unfolding u8_mul_def n by simp
  show "unat ((b AND 0x0F) * 4 :: u8) = 4 * (unat b mod 16)"
    using lt by (simp only: unat_word_ariths n) simp
qed

lemma u8_mul_doff: "u8_mul (drop_bit 4 b) 4 = Inr (drop_bit 4 b * 4)"
  and unat_doff: "unat (drop_bit 4 b * 4 :: u8) = 4 * (unat b div 16)"
proof -
  have lt: "unat b div 16 < 16"
    by (rule less_mult_imp_div_less) simp
  have n: "unat (drop_bit 4 b) = unat b div 16" by (rule unat_high_nibble)
  show "u8_mul (drop_bit 4 b) 4 = Inr (drop_bit 4 b * 4)"
    using lt unfolding u8_mul_def n by simp
  show "unat (drop_bit 4 b * 4 :: u8) = 4 * (unat b div 16)"
    using lt by (simp only: unat_word_ariths n) simp
qed

section \<open>Each parser on every branch\<close>

lemma take_two: "Suc i < length bs \<Longrightarrow> take 2 (drop i bs) = [bs ! i, bs ! Suc i]"
  using take_two_eq [of i bs] by simp

lemma parse_ethernet_eq:
  "parse_ethernet frame =
     (if length frame < 14 then Inl (Throw TooShort)
      else Inr \<lparr>ef_ethertype = u16_from_be_bytes [frame ! 12, frame ! 13], ef_payload = drop 14 frame\<rparr>)"
  using take_two [of 12 frame]
  by (simp add: parse_ethernet_def try_slice_into_eq checked_slice_from_eq)

lemma parse_ipv4_eq:
  "parse_ipv4 packet =
     (let hl = 4 * (unat (packet ! 0) mod 16); tl = 256 * unat (packet ! 2) + unat (packet ! 3) in
      if length packet < 20 then Inl (Throw TooShort)
      else if drop_bit 4 (packet ! 0) \<noteq> 4 then Inl (Throw (UnsupportedIpVersion (drop_bit 4 (packet ! 0))))
      else if packet ! 9 \<noteq> 6 then Inl (Throw (UnsupportedIpProtocol (packet ! 9)))
      else if hl \<le> tl \<and> tl \<le> length packet then
        Inr \<lparr>is_header = \<lparr>ih_protocol = 6, ih_source = take 4 (drop 12 packet),
               ih_destination = take 4 (drop 16 packet)\<rparr>,
             is_payload = take (tl - hl) (drop hl packet)\<rparr>
      else Inl (Throw TooShort))"
proof (cases "length packet < 20")
  case True
  then show ?thesis by (simp add: parse_ipv4_def)
next
  case False
  then have "take 2 (drop 2 packet) = [packet ! 2, packet ! 3]"
    using take_two [of 2 packet] by simp
  moreover from False have "packet \<noteq> []" by auto
  ultimately show ?thesis using False
    by (simp add: parse_ipv4_def Let_def checked_slice_at_eq checked_slice_range_eq
        try_slice_into_eq u8_mul_ihl unat_ihl unat_u16_from_be_bytes IP_PROTOCOL_TCP_def del: One_nat_def)
qed

lemma parse_tcp_eq:
  "parse_tcp segment =
     (let hl = 4 * (unat (segment ! 12) div 16) in
      if 20 \<le> hl \<and> hl \<le> length segment then
        Inr \<lparr>ts_source_port = u16_from_be_bytes [segment ! 0, segment ! 1],
             ts_destination_port = u16_from_be_bytes [segment ! 2, segment ! 3],
             ts_flags = TcpFlags (segment ! 13), ts_payload = drop hl segment\<rparr>
      else Inl (Throw TooShort))"
proof (cases "12 < length segment")
  case False
  then show ?thesis by (simp add: parse_tcp_def checked_slice_at_eq Let_def)
next
  case True
  then have "take 2 segment = [segment ! 0, segment ! 1]" "take 2 (drop 2 segment) = [segment ! 2, segment ! 3]"
    using take_two [of 0 segment] take_two [of 2 segment] by simp_all
  with True show ?thesis
    by (simp add: parse_tcp_def Let_def checked_slice_at_eq checked_slice_from_eq try_slice_into_eq
        u8_mul_doff unat_doff tcp_flags_from_u8_def)
qed

section \<open>Properties\<close>

definition ip_header_len :: "bytes \<Rightarrow> nat" where
  "ip_header_len packet = 4 * (unat (packet ! 0) mod 16)"

definition ip_total_len :: "bytes \<Rightarrow> nat" where
  "ip_total_len packet = 256 * unat (packet ! 2) + unat (packet ! 3)"

text \<open>
  \<open>parse_ethernet\<close> rejects exactly the frames under 14 bytes and otherwise hands back the
  big-endian type and everything after the header.
\<close>

theorem parse_ethernet_spec:
  "parse_ethernet frame =
     (if length frame < 14 then Inl (Throw TooShort)
      else Inr \<lparr>ef_ethertype = u16_from_be_bytes [frame ! 12, frame ! 13], ef_payload = drop 14 frame\<rparr>)"
  by (rule parse_ethernet_eq)

lemma ip_version_nibble: "drop_bit 4 (b :: u8) = 4 \<longleftrightarrow> unat b div 16 = 4"
  by (simp add: word_unat_eq_iff unat_high_nibble)

text \<open>
  C33: \<open>parse_ipv4\<close>, every outcome in the order the code decides: too short for a header, another
  version, another protocol, lengths that do not fit, or the header's fields with the payload
  that lies between the header length and the total length.
\<close>

theorem parse_ipv4_decides:
  "parse_ipv4 packet =
     (if length packet < 20 then Inl (Throw TooShort)
      else if unat (packet ! 0) div 16 \<noteq> 4 then Inl (Throw (UnsupportedIpVersion (drop_bit 4 (packet ! 0))))
      else if packet ! 9 \<noteq> 6 then Inl (Throw (UnsupportedIpProtocol (packet ! 9)))
      else if ip_total_len packet < ip_header_len packet \<or> length packet < ip_total_len packet
      then Inl (Throw TooShort)
      else Inr \<lparr>is_header = \<lparr>ih_protocol = 6, ih_source = take 4 (drop 12 packet),
                 ih_destination = take 4 (drop 16 packet)\<rparr>,
              is_payload = take (ip_total_len packet - ip_header_len packet)
                 (drop (ip_header_len packet) packet)\<rparr>)"
  unfolding parse_ipv4_eq ip_header_len_def ip_total_len_def ip_version_nibble [symmetric]
  by (auto simp: Let_def)

text \<open>
  In particular it succeeds exactly on packets of at least 20 bytes with version 4, protocol 6
  and header length \<open>\<le>\<close> total length \<open>\<le>\<close> packet length.
\<close>

theorem parse_ipv4_accepts:
  "parse_ipv4 packet = Inr s \<longleftrightarrow>
     20 \<le> length packet \<and> unat (packet ! 0) div 16 = 4 \<and> packet ! 9 = 6 \<and>
     ip_header_len packet \<le> ip_total_len packet \<and> ip_total_len packet \<le> length packet \<and>
     s = \<lparr>is_header = \<lparr>ih_protocol = 6, ih_source = take 4 (drop 12 packet),
             ih_destination = take 4 (drop 16 packet)\<rparr>,
          is_payload = take (ip_total_len packet - ip_header_len packet)
             (drop (ip_header_len packet) packet)\<rparr>"
  unfolding parse_ipv4_eq ip_header_len_def ip_total_len_def ip_version_nibble [symmetric]
  by (auto simp: Let_def)

text \<open>
  Bytes after the total length (Ethernet padding) change nothing: a packet that parses,
  parses to the same header and payload with any bytes appended.
\<close>

theorem parse_ipv4_ignores_padding:
  assumes "parse_ipv4 packet = Inr s"
  shows "parse_ipv4 (packet @ padding) = Inr s"
proof -
  have "20 \<le> length packet" using assms by (simp add: parse_ipv4_eq Let_def split: if_splits)
  with assms show ?thesis
    by (auto simp: parse_ipv4_eq Let_def nth_append split: if_splits)
qed

lemma parse_ipv4_fixture:
  "parse_ipv4 (drop 14 LOCALHOST_LOGIN_FRAME) =
     Inr \<lparr>is_header = \<lparr>ih_protocol = 6, ih_source = [10, 0, 1, 4], ih_destination = [10, 43, 255, 65]\<rparr>,
          is_payload = drop 34 LOCALHOST_LOGIN_FRAME\<rparr>"
  by (simp add: parse_ipv4_eq LOCALHOST_LOGIN_FRAME_def Let_def)

theorem parse_ipv4_ignores_padding_witness:
  "parse_ipv4 (drop 14 LOCALHOST_LOGIN_FRAME @ [0, 0, 0, 0, 0, 0]) =
     Inr \<lparr>is_header = \<lparr>ih_protocol = 6, ih_source = [10, 0, 1, 4], ih_destination = [10, 43, 255, 65]\<rparr>,
          is_payload = drop 34 LOCALHOST_LOGIN_FRAME\<rparr>"
  by (rule parse_ipv4_ignores_padding [OF parse_ipv4_fixture])

text \<open>
  C34: an IHL below 5 is not rejected: such a packet parses, and its payload starts inside the
  20-byte header that every IPv4 packet has.
\<close>

theorem parse_ipv4_short_ihl:
  assumes "20 \<le> length packet" and "unat (packet ! 0) div 16 = 4" and "packet ! 9 = 6"
    and "unat (packet ! 0) mod 16 < 5" and "20 \<le> ip_total_len packet"
    and "ip_total_len packet \<le> length packet"
  shows "\<exists>s. parse_ipv4 packet = Inr s \<and> ip_header_len packet < 20 \<and>
    is_payload s = drop (ip_header_len packet) (take 20 packet) @
      take (ip_total_len packet - 20) (drop 20 packet)"
proof -
  let ?h = "ip_header_len packet" and ?t = "ip_total_len packet"
  have h: "?h < 20" using assms(4) by (simp add: ip_header_len_def)
  have "take (?t - ?h) (drop ?h packet) = drop ?h (take ?t packet)"
    using h assms(5) by (simp add: take_drop)
  also have "take ?t packet = take 20 packet @ take (?t - 20) (drop 20 packet)"
    using assms(5) take_add [of 20 "?t - 20" packet] by simp
  also have "drop ?h \<dots> = drop ?h (take 20 packet) @ take (?t - 20) (drop 20 packet)"
    using h assms(1) by simp
  finally show ?thesis
    using assms h by (simp add: parse_ipv4_accepts)
qed

theorem parse_ipv4_short_ihl_witness:
  "\<exists>s. parse_ipv4 ([0x40, 0, 0, 20, 0, 0, 0, 0, 64, 6, 0, 0, 10, 0, 1, 4, 10, 43, 255, 65]) = Inr s \<and>
     length (is_payload s) = 20"
  using parse_ipv4_short_ihl
    [of "[0x40, 0, 0, 20, 0, 0, 0, 0, 64, 6, 0, 0, 10, 0, 1, 4, 10, 43, 255, 65]"]
  by (auto simp: ip_header_len_def ip_total_len_def)

text \<open>
  C39: \<open>parse_tcp\<close>, on every segment: too short if it has under 20 bytes, if its data offset gives a
  header under 20 bytes or one longer than the segment; otherwise the ports, the flags byte and,
  as payload, every byte after the header.
\<close>

theorem parse_tcp_decides:
  "parse_tcp segment =
     (if length segment < 20 \<or> unat (segment ! 12) div 16 < 5 \<or>
         length segment < 4 * (unat (segment ! 12) div 16)
      then Inl (Throw TooShort)
      else Inr \<lparr>ts_source_port = u16_from_be_bytes [segment ! 0, segment ! 1],
          ts_destination_port = u16_from_be_bytes [segment ! 2, segment ! 3],
          ts_flags = TcpFlags (segment ! 13),
          ts_payload = drop (4 * (unat (segment ! 12) div 16)) segment\<rparr>)"
  unfolding parse_tcp_eq by (auto simp: Let_def)

text \<open>
  None of the three parsers can panic: every index is bounds-checked and the header length
  times four fits its byte.
\<close>

theorem net_parsers_never_panic:
  "no_fault (parse_ethernet frame) \<and> no_fault (parse_ipv4 packet) \<and> no_fault (parse_tcp segment)"
  by (simp add: parse_ethernet_eq parse_ipv4_eq parse_tcp_eq Let_def)

text \<open>
  Flags rebuilt from the header's bit fields answer each of the five questions as the flags
  byte itself does.
\<close>

theorem tcp_flags_agree:
  assumes "header_layout N" and "length h = 20"
  shows "is_fin (tcp_flags_from_header N h) = is_fin (tcp_flags_from_u8 (h ! 13)) \<and>
    is_syn (tcp_flags_from_header N h) = is_syn (tcp_flags_from_u8 (h ! 13)) \<and>
    is_rst (tcp_flags_from_header N h) = is_rst (tcp_flags_from_u8 (h ! 13)) \<and>
    is_psh (tcp_flags_from_header N h) = is_psh (tcp_flags_from_u8 (h ! 13)) \<and>
    is_ack (tcp_flags_from_header N h) = is_ack (tcp_flags_from_u8 (h ! 13))"
  by (rule tcp_flags_from_both [OF assms])

theorem tcp_flags_agree_witness:
  "is_syn (tcp_flags_from_header rfc_headers (take 20 (drop 34 LOCALHOST_LOGIN_FRAME))) = False \<and>
   is_ack (tcp_flags_from_header rfc_headers (take 20 (drop 34 LOCALHOST_LOGIN_FRAME))) = True"
  using tcp_flags_agree [OF rfc_headers_layout, of "take 20 (drop 34 LOCALHOST_LOGIN_FRAME)"]
  by (simp add: LOCALHOST_LOGIN_FRAME_def tcp_flags_from_u8_def flag_bits)

end
