(* ===== verification/Ebpf_Headers.thy ===== *)
theory Ebpf_Headers
  imports Ebpf_Context Net
begin

unbundle bit_operations_syntax

text \<open>
  The header parsers of the XDP program, on packet memory: \<open>check_header\<close> of
  \<open>ebpf/networking/ethernet.rs\<close>, \<open>Ipv4Packet::try_parse\<close> of \<open>ipv4.rs\<close> and
  \<open>TcpPacket::try_parse\<close> of \<open>tcp.rs\<close>. An error is the XDP action the packet gets.
  \<open>N\<close> is the crate \<open>network-types\<close> (theory \<open>Network_Types\<close>).
\<close>

section \<open>Types\<close>

record ipv4_packet =
  ip4_source_address :: u32
  ip4_source_port :: u16
  ip4_destination_address :: u32
  ip4_destination_port :: u16
  ip4_total_size :: usize
  ip4_header_size :: usize

definition MORE_FRAGMENTS :: u8 where
  "MORE_FRAGMENTS = 0b001"

record tcp_packet =
  tp_source_port :: u16
  tp_destination_port :: u16
  tp_flags :: tcp_flags
  tp_payload_offset :: usize
  tp_payload_len :: usize

section \<open>Operations\<close>

definition check_header :: "network_types \<Rightarrow> xdp_context \<Rightarrow> (unit, xdp_action) outcome" where
  "check_header N ctx =
     and_then (ctx_index (EthHdr_size N) ctx 0) (\<lambda>eth_hdr.
     and_then (extract_ref (EthHdr_size N) ctx eth_hdr) (\<lambda>hdr.
     case eth_ether_type N hdr of
       Inr EtherType_Ipv4 \<Rightarrow> Inr ()
     | _ \<Rightarrow> Inl (Throw action_ok)))"

definition ipv4_try_parse :: "network_types \<Rightarrow> xdp_context \<Rightarrow> (ipv4_packet, xdp_action) outcome" where
  "ipv4_try_parse N ctx =
     and_then (ctx_index (Ipv4Hdr_size N) ctx (EthHdr_LEN N)) (\<lambda>p.
     and_then (extract_ref (Ipv4Hdr_size N) ctx p) (\<lambda>ipv4hdr.
     if ip_version N ipv4hdr \<noteq> 4 then Inl (Throw action_drop) else
     let source_address = ip_src_addr N ipv4hdr in
     case ip_proto N ipv4hdr of
       Inl (InvalidProto _) \<Rightarrow> Inl (Throw action_drop)
     | Inr proto \<Rightarrow>
     if proto \<noteq> IpProto_Tcp then Inl (Throw action_ok) else
     let header_size = ip_ihl N ipv4hdr;
         total_size = ip_tot_len N ipv4hdr in
     if header_size < Ipv4Hdr_LEN N \<or> total_size < header_size \<or> total_size > 1500
     then Inl (Throw action_drop) else
     if ip_frag_offset N ipv4hdr \<noteq> 0 \<or> ip_frag_flags N ipv4hdr AND MORE_FRAGMENTS \<noteq> 0
     then Inl (Throw action_drop) else
     let start = ctx_start ctx; endp = ctx_end ctx in
     and_then (usize_add start (EthHdr_LEN N)) (\<lambda>q.
     and_then (usize_add q total_size) (\<lambda>q.
     if q > endp then Inl (Throw action_drop) else
     and_then (usize_add (EthHdr_LEN N) header_size) (\<lambda>off.
     and_then (ctx_index (TcpHdr_size N) ctx off) (\<lambda>p.
     and_then (extract_ref (TcpHdr_size N) ctx p) (\<lambda>tcphdr.
     let source_port = u16_from_be_bytes (tcp_source N tcphdr);
         destination_port = u16_from_be_bytes (tcp_dest N tcphdr);
         destination_address = ip_dst_addr N ipv4hdr in
     Inr \<lparr>ip4_source_address = source_address,
          ip4_source_port = source_port,
          ip4_destination_address = destination_address,
          ip4_destination_port = destination_port,
          ip4_total_size = total_size,
          ip4_header_size = header_size\<rparr>)))))))"

definition tcp_try_parse :: "network_types \<Rightarrow> xdp_context \<Rightarrow> (tcp_packet, xdp_action) outcome" where
  "tcp_try_parse N ctx =
     and_then (ctx_index (Ipv4Hdr_size N) ctx (EthHdr_LEN N)) (\<lambda>p.
     and_then (extract_ref (Ipv4Hdr_size N) ctx p) (\<lambda>ipv4_header.
     let total_len = ip_tot_len N ipv4_header in
     if total_len > 1500 then Inl (Throw action_drop) else
     and_then (ctx_len ctx) (\<lambda>len.
     and_then (usize_sub len (EthHdr_LEN N)) (\<lambda>room.
     if total_len > room then Inl (Throw action_drop) else
     let ip_header_len = ip_ihl N ipv4_header in
     if ip_header_len < Ipv4Hdr_LEN N \<or> total_len < ip_header_len
     then Inl (Throw action_drop) else
     and_then (usize_add (EthHdr_LEN N) ip_header_len) (\<lambda>offset.
     and_then (ctx_index (TcpHdr_size N) ctx offset) (\<lambda>p.
     and_then (extract_ref (TcpHdr_size N) ctx p) (\<lambda>tcp_header.
     let header_len = tcp_doff N tcp_header * 4 in
     if 2 ^ 8 \<le> header_len then Inl Overflow else  \<comment> \<open>the type of \<open>doff\<close> has at least 8 bits\<close>
     and_then (usize_sub total_len ip_header_len) (\<lambda>segment_len.
     if header_len < 20 \<or> segment_len < header_len then Inl (Throw action_drop) else
     let source_port = u16_from_be_bytes (tcp_source N tcp_header);
         destination_port = u16_from_be_bytes (tcp_dest N tcp_header);
         flags = tcp_flags_from_header N tcp_header in
     and_then (usize_add offset header_len) (\<lambda>payload_offset.
     and_then (usize_sub segment_len header_len) (\<lambda>payload_len.
     Inr \<lparr>tp_source_port = source_port,
          tp_destination_port = destination_port,
          tp_flags = flags,
          tp_payload_offset = payload_offset,
          tp_payload_len = payload_len\<rparr>))))))))))"

section \<open>The headers as bytes of the frame\<close>

definition frame_ihl :: "bytes \<Rightarrow> nat" where
  \<comment> \<open>the IP header's length in bytes\<close>
  "frame_ihl bs = 4 * (unat (bs ! 14) mod 16)"

definition frame_tot_len :: "bytes \<Rightarrow> nat" where
  "frame_tot_len bs = 256 * unat (bs ! 16) + unat (bs ! 17)"

definition frame_fragmented :: "bytes \<Rightarrow> bool" where
  \<comment> \<open>More Fragments and the 13-bit offset are the low 14 bits of their word\<close>
  "frame_fragmented bs \<longleftrightarrow> (256 * unat (bs ! 20) + unat (bs ! 21)) mod 2 ^ 14 \<noteq> 0"

definition frame_tcp :: "bytes \<Rightarrow> nat" where
  \<comment> \<open>where the TCP header starts\<close>
  "frame_tcp bs = 14 + frame_ihl bs"

definition frame_doff :: "bytes \<Rightarrow> nat" where
  \<comment> \<open>the TCP header's length in bytes\<close>
  "frame_doff bs = 4 * (unat (bs ! (frame_tcp bs + 12)) div 16)"

definition ipv4_of_frame :: "bytes \<Rightarrow> ipv4_packet" where
  "ipv4_of_frame bs = (let t = frame_tcp bs in
     \<lparr>ip4_source_address = u32_from_be_bytes [bs ! 26, bs ! 27, bs ! 28, bs ! 29],
      ip4_source_port = u16_from_be_bytes [bs ! t, bs ! (t + 1)],
      ip4_destination_address = u32_from_be_bytes [bs ! 30, bs ! 31, bs ! 32, bs ! 33],
      ip4_destination_port = u16_from_be_bytes [bs ! (t + 2), bs ! (t + 3)],
      ip4_total_size = frame_tot_len bs, ip4_header_size = frame_ihl bs\<rparr>)"

definition tcp_of_frame :: "network_types \<Rightarrow> bytes \<Rightarrow> tcp_packet" where
  "tcp_of_frame N bs = (let t = frame_tcp bs in
     \<lparr>tp_source_port = u16_from_be_bytes [bs ! t, bs ! (t + 1)],
      tp_destination_port = u16_from_be_bytes [bs ! (t + 2), bs ! (t + 3)],
      tp_flags = tcp_flags_from_header N (take 20 (drop t bs)),
      tp_payload_offset = t + frame_doff bs,
      tp_payload_len = frame_tot_len bs - frame_ihl bs - frame_doff bs\<rparr>)"

lemma frame_ihl_le: "frame_ihl bs \<le> 60"
  by (simp add: frame_ihl_def)

lemma frame_doff_le: "frame_doff bs \<le> 60"
proof -
  have "unat (bs ! (frame_tcp bs + 12)) div 16 < 16"
    by (rule less_mult_imp_div_less) simp
  then show ?thesis by (simp add: frame_doff_def)
qed

lemma fragment_word:
  "unat (u16_from_be_bytes [a, b] AND 0x1FFF) \<noteq> 0 \<or> drop_bit 5 a AND MORE_FRAGMENTS \<noteq> 0 \<longleftrightarrow>
    (256 * unat a + unat b) mod 2 ^ 14 \<noteq> 0"
proof -
  let ?m = "256 * unat a + unat b"
  have "u16_from_be_bytes [a, b] AND 0x1FFF = take_bit 13 (u16_from_be_bytes [a, b])"
    by (simp add: take_bit_eq_mask mask_eq_exp_minus_1)
  then have off: "unat (u16_from_be_bytes [a, b] AND 0x1FFF) = ?m mod 2 ^ 13"
    by (simp add: take_bit_eq_mod unat_mod unat_u16_from_be_bytes)
  have "drop_bit 5 a AND MORE_FRAGMENTS \<noteq> 0 \<longleftrightarrow> bit a 5"
    using and_exp_eq_0_iff_not_bit [of "drop_bit 5 a" 0]
    by (simp add: MORE_FRAGMENTS_def bit_simps)
  also have "\<dots> \<longleftrightarrow> bit (unat a) 5"
    by (simp add: bit_unsigned_iff)
  also have "\<dots> \<longleftrightarrow> odd (?m div 2 ^ 13)"
  proof -
    have "?m div 2 ^ 13 = ?m div 256 div 32"
      using div_mult2_eq [of ?m 256 32] by simp
    also have "?m div 256 = unat a" by simp
    finally have "?m div 2 ^ 13 = unat a div 32" .
    then show ?thesis by (simp add: bit_iff_odd)
  qed
  finally have mf: "drop_bit 5 a AND MORE_FRAGMENTS \<noteq> 0 \<longleftrightarrow> odd (?m div 2 ^ 13)" .
  have "?m mod 2 ^ 14 = 2 ^ 13 * (?m div 2 ^ 13 mod 2) + ?m mod 2 ^ 13"
    using mod_mult2_eq [of ?m "2 ^ 13" 2] by simp
  then show ?thesis
    unfolding off mf by (auto simp: odd_iff_mod_2_eq_one)
qed

section \<open>Each parser on every branch\<close>

lemma frame_nth: "n = 14 + i \<Longrightarrow> i < k \<Longrightarrow> 14 + k \<le> length bs \<Longrightarrow> take k (drop 14 bs) ! i = bs ! n"
  by simp

lemma frame_ip_fields:
  assumes "header_layout N" and "34 \<le> length bs"
  shows "ip_version N (take 20 (drop 14 bs)) = unat (bs ! 14) div 16"
    and "ip_ihl N (take 20 (drop 14 bs)) = frame_ihl bs"
    and "ip_tot_len N (take 20 (drop 14 bs)) = frame_tot_len bs"
    and "ip_proto N (take 20 (drop 14 bs)) = Inr IpProto_Tcp \<longleftrightarrow> bs ! 23 = 6"
    and "ip_src_addr N (take 20 (drop 14 bs)) = u32_from_be_bytes [bs ! 26, bs ! 27, bs ! 28, bs ! 29]"
    and "ip_dst_addr N (take 20 (drop 14 bs)) = u32_from_be_bytes [bs ! 30, bs ! 31, bs ! 32, bs ! 33]"
    and "ip_frag_offset N (take 20 (drop 14 bs)) \<noteq> 0 \<or>
      ip_frag_flags N (take 20 (drop 14 bs)) AND MORE_FRAGMENTS \<noteq> 0 \<longleftrightarrow> frame_fragmented bs"
proof -
  note f = net_headers.ip_fields [OF net_headers.intro [OF assms(1)], of "take 20 (drop 14 bs)"]
  have "length (take 20 (drop 14 bs)) = 20"
    using assms(2) by simp
  note f = f [OF this]
  show "ip_frag_offset N (take 20 (drop 14 bs)) \<noteq> 0 \<or>
      ip_frag_flags N (take 20 (drop 14 bs)) AND MORE_FRAGMENTS \<noteq> 0 \<longleftrightarrow> frame_fragmented bs"
    unfolding f fragment_word using assms(2) by (simp add: frame_fragmented_def)
  show "ip_version N (take 20 (drop 14 bs)) = unat (bs ! 14) div 16"
    and "ip_ihl N (take 20 (drop 14 bs)) = frame_ihl bs"
    and "ip_tot_len N (take 20 (drop 14 bs)) = frame_tot_len bs"
    and "ip_proto N (take 20 (drop 14 bs)) = Inr IpProto_Tcp \<longleftrightarrow> bs ! 23 = 6"
    and "ip_src_addr N (take 20 (drop 14 bs)) = u32_from_be_bytes [bs ! 26, bs ! 27, bs ! 28, bs ! 29]"
    and "ip_dst_addr N (take 20 (drop 14 bs)) = u32_from_be_bytes [bs ! 30, bs ! 31, bs ! 32, bs ! 33]"
    unfolding f frame_ihl_def frame_tot_len_def using assms(2) by simp_all
qed

lemma frame_tcp_fields:
  assumes "header_layout N" and "frame_tcp bs + 20 \<le> length bs"
  shows "tcp_source N (take 20 (drop (frame_tcp bs) bs)) = [bs ! frame_tcp bs, bs ! (frame_tcp bs + 1)]"
    and "tcp_dest N (take 20 (drop (frame_tcp bs) bs)) = [bs ! (frame_tcp bs + 2), bs ! (frame_tcp bs + 3)]"
    and "tcp_doff N (take 20 (drop (frame_tcp bs) bs)) * 4 = frame_doff bs"
  using net_headers.tcp_fields [OF net_headers.intro [OF assms(1)], of "take 20 (drop (frame_tcp bs) bs)"]
    assms(2)
  by (simp_all add: frame_doff_def)

lemma header_sizes:
  assumes "header_layout N"
  shows "EthHdr_size N = 14" and "EthHdr_LEN N = 14" and "Ipv4Hdr_size N = 20" and "Ipv4Hdr_LEN N = 20"
    and "TcpHdr_size N = 20"
  using net_headers.sizes [OF net_headers.intro [OF assms]] .

lemma check_header_eq:
  assumes "header_layout N" and "packet_ctx ctx bs"
  shows "check_header N ctx =
    (if length bs < 14 then Inl (Throw XDP_ABORTED)
     else if u16_from_be_bytes [bs ! 12, bs ! 13] = 0x0800 then Inr () else Inl (Throw XDP_PASS))"
proof (cases "length bs < 14")
  case True
  then show ?thesis
    by (simp add: check_header_def header_sizes [OF assms(1)] xdp.load_then [OF assms(2)] headroom_def)
next
  case False
  then have "eth_ether_type N (take 14 bs) = Inr EtherType_Ipv4 \<longleftrightarrow>
      u16_from_be_bytes [bs ! 12, bs ! 13] = 0x0800"
    using net_headers.ether_type_iff [OF net_headers.intro [OF assms(1)], of "take 14 bs"] by simp
  with False show ?thesis
    by (auto simp: check_header_def header_sizes [OF assms(1)] xdp.load_then [OF assms(2)]
        headroom_def action_defs split: sum.splits ether_type.splits)
qed

lemma ipv4_try_parse_eq:
  assumes N: "header_layout N" and p: "packet_ctx ctx bs"
  shows "ipv4_try_parse N ctx =
    (if length bs < 34 then Inl (Throw XDP_ABORTED)
     else if unat (bs ! 14) div 16 \<noteq> 4 then Inl (Throw XDP_DROP)
     else if bs ! 23 \<noteq> 6 then
       Inl (Throw (if isl (ip_proto N (take 20 (drop 14 bs))) then XDP_DROP else XDP_PASS))
     else if frame_ihl bs < 20 \<or> frame_tot_len bs < frame_ihl bs \<or> 1500 < frame_tot_len bs \<or>
       frame_fragmented bs \<or> length bs < 14 + frame_tot_len bs then Inl (Throw XDP_DROP)
     else if length bs < frame_tcp bs + 20 then Inl (Throw XDP_ABORTED)
     else Inr (ipv4_of_frame bs))"
proof (cases "length bs < 34")
  case True
  then show ?thesis
    by (simp add: ipv4_try_parse_def header_sizes [OF N] xdp.load_then [OF p] headroom_def)
next
  case False
  then have len: "34 \<le> length bs" by simp
  note f = frame_ip_fields [OF N len]
  have frag: "0 < ip_frag_offset N (take 20 (drop 14 bs)) \<or>
      ip_frag_flags N (take 20 (drop 14 bs)) AND MORE_FRAGMENTS \<noteq> 0 \<longleftrightarrow> frame_fragmented bs"
    using f(7) by simp
  have ihl: "frame_tcp bs + 20 < headroom" "14 + frame_ihl bs < 2 ^ 64"
    using frame_ihl_le [of bs] by (simp_all add: frame_tcp_def headroom_def)
  have tot: "ctx_start ctx + 14 + frame_tot_len bs < 2 ^ 64" "ctx_start ctx + 14 < 2 ^ 64"
    if "frame_tot_len bs \<le> 1500"
    using that packet_ctx_bounds(3) [OF p, of "14 + frame_tot_len bs"]
    by (simp_all add: headroom_def)
  show ?thesis
  proof (cases "ip_proto N (take 20 (drop 14 bs))")
    case (Inl e)
    with f(4) have "bs ! 23 \<noteq> 6" by auto
    with len Inl show ?thesis
      by (cases e) (simp add: ipv4_try_parse_def header_sizes [OF N] xdp.load_then [OF p] headroom_def
          f Let_def action_defs)
  next
    case (Inr proto)
    with f(4) have "proto = IpProto_Tcp \<longleftrightarrow> bs ! 23 = 6" by auto
    with len Inr show ?thesis
      using ihl tot frame_tcp_fields [OF N, of bs]
      by (simp add: ipv4_try_parse_def header_sizes [OF N] xdp.load_then [OF p] headroom_def
          f(1-6) frag Let_def ipv4_of_frame_def action_defs packet_ctx_bounds(2) [OF p] frame_tcp_def)
  qed
qed

lemma tcp_try_parse_eq:
  assumes N: "header_layout N" and p: "packet_ctx ctx bs"
  shows "tcp_try_parse N ctx =
    (if length bs < 34 then Inl (Throw XDP_ABORTED)
     else if 1500 < frame_tot_len bs \<or> length bs < 14 + frame_tot_len bs \<or>
       frame_ihl bs < 20 \<or> frame_tot_len bs < frame_ihl bs then Inl (Throw XDP_DROP)
     else if length bs < frame_tcp bs + 20 then Inl (Throw XDP_ABORTED)
     else if frame_doff bs < 20 \<or> frame_tot_len bs - frame_ihl bs < frame_doff bs
     then Inl (Throw XDP_DROP)
     else Inr (tcp_of_frame N bs))"
proof (cases "length bs < 34")
  case True
  then show ?thesis
    by (simp add: tcp_try_parse_def header_sizes [OF N] xdp.load_then [OF p] headroom_def)
next
  case False
  then have len: "34 \<le> length bs" by simp
  note f = frame_ip_fields [OF N len]
  have b: "34 + frame_ihl bs < headroom" "14 + frame_ihl bs + frame_doff bs < 2 ^ 64"
    using frame_ihl_le [of bs] frame_doff_le [of bs] by (simp_all add: headroom_def)
  have doff: "\<not> 256 \<le> frame_doff bs" using frame_doff_le [of bs] by simp
  have room: "length bs - 14 < frame_tot_len bs \<longleftrightarrow> length bs < 14 + frame_tot_len bs"
    using len by linarith
  note unfolds = tcp_try_parse_def header_sizes [OF N] xdp.load_then [OF p] headroom_def f(1-6) Let_def
    tcp_of_frame_def action_defs packet_ctx_bounds(1) [OF p] frame_tcp_def room
  show ?thesis
  proof (cases "length bs < frame_tcp bs + 20")
    case True
    with len b show ?thesis by (simp add: unfolds)
  next
    case False
    with frame_tcp_fields [OF N, of bs]
    have t: "tcp_source N (take 20 (drop (14 + frame_ihl bs) bs)) =
        [bs ! (14 + frame_ihl bs), bs ! (15 + frame_ihl bs)]"
      "tcp_dest N (take 20 (drop (14 + frame_ihl bs) bs)) =
        [bs ! (16 + frame_ihl bs), bs ! (17 + frame_ihl bs)]"
      "frame_doff bs = tcp_doff N (take 20 (drop (14 + frame_ihl bs) bs)) * 4"
      by (simp_all add: frame_tcp_def)
    with False len b doff show ?thesis by (simp add: unfolds)
  qed
qed

text \<open>Which frames each parser accepts, as one condition on the bytes.\<close>

definition ipv4_acceptable :: "bytes \<Rightarrow> bool" where
  "ipv4_acceptable bs \<longleftrightarrow>
     34 \<le> length bs \<and> unat (bs ! 14) div 16 = 4 \<and> bs ! 23 = 6 \<and>
     20 \<le> frame_ihl bs \<and> frame_ihl bs \<le> frame_tot_len bs \<and> frame_tot_len bs \<le> 1500 \<and>
     \<not> frame_fragmented bs \<and> 14 + frame_tot_len bs \<le> length bs \<and> frame_tcp bs + 20 \<le> length bs"

definition tcp_acceptable :: "bytes \<Rightarrow> bool" where
  "tcp_acceptable bs \<longleftrightarrow>
     34 \<le> length bs \<and> 20 \<le> frame_ihl bs \<and> 20 \<le> frame_doff bs \<and>
     frame_ihl bs + frame_doff bs \<le> frame_tot_len bs \<and> frame_tot_len bs \<le> 1500 \<and>
     14 + frame_tot_len bs \<le> length bs"

lemma ipv4_try_parse_Inr:
  assumes "header_layout N" and "packet_ctx ctx bs"
  shows "ipv4_try_parse N ctx = Inr p \<longleftrightarrow> ipv4_acceptable bs \<and> p = ipv4_of_frame bs"
  unfolding ipv4_try_parse_eq [OF assms] ipv4_acceptable_def by auto

lemma tcp_try_parse_Inr:
  assumes "header_layout N" and "packet_ctx ctx bs"
  shows "tcp_try_parse N ctx = Inr p \<longleftrightarrow> tcp_acceptable bs \<and> p = tcp_of_frame N bs"
  unfolding tcp_try_parse_eq [OF assms] tcp_acceptable_def by (auto simp: frame_tcp_def)

definition ipv4_reject_action :: "network_types \<Rightarrow> bytes \<Rightarrow> xdp_action" where
  \<comment> \<open>the third case is a frame that ends inside a TCP header and would be accepted were it longer\<close>
  "ipv4_reject_action N bs =
     (if length bs < 34 then XDP_ABORTED
      else if unat (bs ! 14) div 16 = 4 \<and> bs ! 23 \<noteq> 6 \<and> \<not> isl (ip_proto N (take 20 (drop 14 bs)))
      then XDP_PASS
      else if ipv4_acceptable (bs @ replicate 80 0) \<and> 14 + frame_tot_len bs \<le> length bs
      then XDP_ABORTED
      else XDP_DROP)"

lemma ipv4_try_parse_cases:
  assumes "header_layout N" and "packet_ctx ctx bs"
  shows "ipv4_try_parse N ctx = (if ipv4_acceptable bs then Inr (ipv4_of_frame bs)
    else Inl (Throw (ipv4_reject_action N bs)))"
proof -
  let ?bs = "bs @ replicate 80 0"
  show ?thesis
  proof (cases "length bs < 34")
    case True
    then show ?thesis
      unfolding ipv4_try_parse_eq [OF assms] ipv4_acceptable_def ipv4_reject_action_def by auto
  next
    case False
    then have "frame_ihl ?bs = frame_ihl bs" "frame_tot_len ?bs = frame_tot_len bs"
      "frame_fragmented ?bs = frame_fragmented bs" "?bs ! 14 = bs ! 14" "?bs ! 23 = bs ! 23"
      by (simp_all add: frame_ihl_def frame_tot_len_def frame_fragmented_def nth_append)
    with False frame_ihl_le [of bs] show ?thesis
      unfolding ipv4_try_parse_eq [OF assms] ipv4_acceptable_def ipv4_reject_action_def
      by (auto simp: frame_tcp_def)
  qed
qed

lemma ipv4_reject_malformed:
  assumes "34 \<le> length bs" and "bs ! 23 = 6"
    and "frame_fragmented bs \<or> frame_ihl bs < 20 \<or> frame_tot_len bs < frame_ihl bs \<or>
      1500 < frame_tot_len bs \<or> length bs < 14 + frame_tot_len bs"
  shows "ipv4_reject_action N bs = XDP_DROP"
proof -
  let ?bs = "bs @ replicate 80 0"
  from assms(1) have "frame_ihl ?bs = frame_ihl bs" "frame_tot_len ?bs = frame_tot_len bs"
    "frame_fragmented ?bs = frame_fragmented bs"
    by (simp_all add: frame_ihl_def frame_tot_len_def frame_fragmented_def nth_append)
  with assms show ?thesis by (auto simp: ipv4_reject_action_def ipv4_acceptable_def)
qed

lemma tcp_try_parse_drop:
  assumes "header_layout N" and "packet_ctx ctx bs" and "ipv4_acceptable bs" and "\<not> tcp_acceptable bs"
  shows "tcp_try_parse N ctx = Inl (Throw XDP_DROP)"
  using assms(3,4) unfolding tcp_try_parse_eq [OF assms(1,2)] ipv4_acceptable_def tcp_acceptable_def
  by (auto simp: frame_tcp_def)

lemma headers_no_fault:
  assumes "header_layout N" and "packet_ctx ctx bs"
  shows "no_fault (check_header N ctx)" "no_fault (ipv4_try_parse N ctx)" "no_fault (tcp_try_parse N ctx)"
  by (simp_all add: check_header_eq [OF assms] ipv4_try_parse_eq [OF assms] tcp_try_parse_eq [OF assms])

lemma localhost_frame_ctx: "packet_ctx (fake_packet_ctx 4096 LOCALHOST_LOGIN_FRAME) LOCALHOST_LOGIN_FRAME"
  by (rule fake_packet_ctx) (simp_all add: LOCALHOST_LOGIN_FRAME_def headroom_def)

lemma localhost_frame_fields:
  "length LOCALHOST_LOGIN_FRAME = 71" "frame_ihl LOCALHOST_LOGIN_FRAME = 20"
  "frame_tot_len LOCALHOST_LOGIN_FRAME = 57" "frame_tcp LOCALHOST_LOGIN_FRAME = 34"
  "frame_doff LOCALHOST_LOGIN_FRAME = 20" "frame_fragmented LOCALHOST_LOGIN_FRAME = False"
  by (simp_all add: LOCALHOST_LOGIN_FRAME_def frame_ihl_def frame_tot_len_def frame_tcp_def
      frame_doff_def frame_fragmented_def)

section \<open>Properties\<close>

text \<open>
  \<open>check_header\<close> on the packet's bytes: a frame too short for its header is aborted, a
  frame of any type but IPv4 is passed, an IPv4 frame goes on.
\<close>

theorem check_header_spec:
  assumes "header_layout N" and "packet_ctx ctx bs"
  shows "check_header N ctx =
    (if length bs < 14 then Inl (Throw XDP_ABORTED)
     else if u16_from_be_bytes [bs ! 12, bs ! 13] = 0x0800 then Inr () else Inl (Throw XDP_PASS))"
  by (rule check_header_eq [OF assms])

theorem check_header_spec_witness:
  "check_header rfc_headers (fake_packet_ctx 4096 LOCALHOST_LOGIN_FRAME) = Inr ()"
  using check_header_spec [OF rfc_headers_layout localhost_frame_ctx]
  by (simp add: LOCALHOST_LOGIN_FRAME_def u16_from_be_bytes_def)

text \<open>
  C19: \<open>Ipv4Packet::try_parse\<close> accepts exactly the unfragmented TCP packets of version 4 whose
  IHL is at least 20, whose total length is between IHL and 1500 and lies inside the frame,
  and whose TCP header is inside the frame; the result holds the addresses, ports and lengths
  of those bytes.
\<close>

theorem ipv4_try_parse_accepts:
  assumes "header_layout N" and "packet_ctx ctx bs"
  shows "ipv4_try_parse N ctx = Inr p \<longleftrightarrow> ipv4_acceptable bs \<and> p = ipv4_of_frame bs"
  by (rule ipv4_try_parse_Inr [OF assms])

theorem ipv4_try_parse_accepts_witness:
  "ipv4_try_parse rfc_headers (fake_packet_ctx 4096 LOCALHOST_LOGIN_FRAME) =
     Inr \<lparr>ip4_source_address = 0x0A000104, ip4_source_port = 54321,
          ip4_destination_address = 0x0A2BFF41, ip4_destination_port = 25565,
          ip4_total_size = 57, ip4_header_size = 20\<rparr>"
  unfolding ipv4_try_parse_accepts [OF rfc_headers_layout localhost_frame_ctx]
  by (simp add: ipv4_acceptable_def ipv4_of_frame_def localhost_frame_fields)
     (simp add: LOCALHOST_LOGIN_FRAME_def u16_from_be_bytes_def u32_from_be_bytes_def)

text \<open>
  C20: the action of every frame \<open>Ipv4Packet::try_parse\<close> rejects. Passed are only version-4
  packets of a protocol the header names that is not TCP; aborted are only frames that end
  inside one of the two headers; everything else that is rejected is dropped.
\<close>

theorem ipv4_try_parse_rejects:
  assumes "header_layout N" and "packet_ctx ctx bs"
  shows "ipv4_try_parse N ctx = Inl e \<longleftrightarrow>
    \<not> ipv4_acceptable bs \<and>
    e = Throw
      (if length bs < 34 then XDP_ABORTED
       else if unat (bs ! 14) div 16 = 4 \<and> bs ! 23 \<noteq> 6 \<and> \<not> isl (ip_proto N (take 20 (drop 14 bs)))
       then XDP_PASS
       else if ipv4_acceptable (bs @ replicate 80 0) \<and> 14 + frame_tot_len bs \<le> length bs
       then XDP_ABORTED
       else XDP_DROP)"
  unfolding ipv4_try_parse_cases [OF assms] ipv4_reject_action_def by auto

theorem ipv4_try_parse_rejects_witness:
  "ipv4_try_parse rfc_headers (fake_packet_ctx 4096 (LOCALHOST_LOGIN_FRAME[20 := 0x20])) =
     Inl (Throw XDP_DROP)"
proof -
  have "packet_ctx (fake_packet_ctx 4096 (LOCALHOST_LOGIN_FRAME[20 := 0x20])) (LOCALHOST_LOGIN_FRAME[20 := 0x20])"
    by (rule fake_packet_ctx) (simp_all add: LOCALHOST_LOGIN_FRAME_def headroom_def)
  from ipv4_try_parse_rejects [OF rfc_headers_layout this] show ?thesis
    by (simp add: ipv4_acceptable_def LOCALHOST_LOGIN_FRAME_def frame_fragmented_def)
qed

text \<open>
  C21: \<open>TcpPacket::try_parse\<close> accepts exactly the frames whose two header lengths are at least
  20 and together at most a total length of at most 1500 that lies inside the frame. The
  subtraction \<open>ctx.len() - 14\<close> cannot underflow.
\<close>

theorem tcp_try_parse_accepts:
  assumes "header_layout N" and "packet_ctx ctx bs"
  shows "tcp_try_parse N ctx = Inr p \<longleftrightarrow> tcp_acceptable bs \<and> p = tcp_of_frame N bs"
  by (rule tcp_try_parse_Inr [OF assms])

theorem tcp_try_parse_accepts_witness:
  "\<exists>p. tcp_try_parse rfc_headers (fake_packet_ctx 4096 LOCALHOST_LOGIN_FRAME) = Inr p \<and>
     tp_payload_offset p = 54 \<and> tp_payload_len p = 17"
  unfolding tcp_try_parse_accepts [OF rfc_headers_layout localhost_frame_ctx]
  by (simp add: tcp_acceptable_def tcp_of_frame_def localhost_frame_fields)

text \<open>
  The payload \<open>TcpPacket::try_parse\<close> reports ends where the IP packet ends, inside the
  frame: padding after the total length is never counted as payload, and its offset is small
  enough for every read the handshake check makes from it.
\<close>

theorem tcp_payload_inside:
  assumes "header_layout N" and "packet_ctx ctx bs" and "tcp_try_parse N ctx = Inr p"
  shows "tp_payload_offset p + tp_payload_len p = 14 + frame_tot_len bs \<and>
    14 + frame_tot_len bs \<le> length bs \<and> 54 \<le> tp_payload_offset p \<and> tp_payload_offset p \<le> 134"
  using assms(3) frame_ihl_le [of bs] frame_doff_le [of bs]
  unfolding tcp_try_parse_Inr [OF assms(1,2)]
  by (auto simp: tcp_of_frame_def tcp_acceptable_def frame_tcp_def Let_def)

lemma padded_login_frame:
  "packet_ctx (fake_packet_ctx 4096 (LOCALHOST_LOGIN_FRAME @ [0, 0])) (LOCALHOST_LOGIN_FRAME @ [0, 0])"
  "tcp_try_parse rfc_headers (fake_packet_ctx 4096 (LOCALHOST_LOGIN_FRAME @ [0, 0])) =
     Inr (tcp_of_frame rfc_headers (LOCALHOST_LOGIN_FRAME @ [0, 0]))"
proof -
  show c: "packet_ctx (fake_packet_ctx 4096 (LOCALHOST_LOGIN_FRAME @ [0, 0])) (LOCALHOST_LOGIN_FRAME @ [0, 0])"
    by (rule fake_packet_ctx) (simp_all add: LOCALHOST_LOGIN_FRAME_def headroom_def)
  show "tcp_try_parse rfc_headers (fake_packet_ctx 4096 (LOCALHOST_LOGIN_FRAME @ [0, 0])) =
     Inr (tcp_of_frame rfc_headers (LOCALHOST_LOGIN_FRAME @ [0, 0]))"
    unfolding tcp_try_parse_Inr [OF rfc_headers_layout c] tcp_acceptable_def
    by (simp add: LOCALHOST_LOGIN_FRAME_def frame_ihl_def frame_tot_len_def frame_doff_def frame_tcp_def)
qed

theorem tcp_payload_inside_witness:
  "tp_payload_offset (tcp_of_frame rfc_headers (LOCALHOST_LOGIN_FRAME @ [0, 0])) +
     tp_payload_len (tcp_of_frame rfc_headers (LOCALHOST_LOGIN_FRAME @ [0, 0])) = 71"
  using tcp_payload_inside [OF rfc_headers_layout padded_login_frame]
  by (simp add: LOCALHOST_LOGIN_FRAME_def frame_tot_len_def)

text \<open>
  C22: no header parser overflows an integer or reads a byte outside the packet, whatever the
  packet holds.
\<close>

theorem header_parsers_never_fault:
  assumes "header_layout N" and "packet_ctx ctx bs"
  shows "no_fault (check_header N ctx) \<and> no_fault (ipv4_try_parse N ctx) \<and> no_fault (tcp_try_parse N ctx)"
  using headers_no_fault [OF assms] by simp

theorem header_parsers_never_fault_witness:
  "no_fault (tcp_try_parse rfc_headers (fake_packet_ctx 1 []))"
  using header_parsers_never_fault [OF rfc_headers_layout fake_packet_ctx [of 1 "[]"]]
  by (simp add: headroom_def)

end
