(* ===== verification/Varint.thy ===== *)
theory Varint
  imports Sniffer_Prelude
begin

unbundle bit_operations_syntax

text \<open>
  The wire format both parsers read: a Minecraft \<open>VarInt\<close> is one to five bytes, seven
  payload bits each, least significant group first, the top bit set on every byte but the
  last; bits past the 32nd are lost. This theory is the format itself, independent of the
  code: \<open>varint vs v\<close> says that the bytes \<open>vs\<close> encode \<open>v\<close>. The locale \<open>varint_reader\<close>
  is what a reader of the format promises; the slice parser (theory \<open>Parser\<close>) and the
  packet-memory parser (theory \<open>Minecraft\<close>) both interpret it.
\<close>

section \<open>The format\<close>

definition continued :: "u8 \<Rightarrow> bool" where
  "continued b \<longleftrightarrow> b AND 0x80 \<noteq> 0"

definition segment :: "u8 \<Rightarrow> u32" where
  "segment b = ucast (b AND 0x7F)"

fun varint_value :: "bytes \<Rightarrow> u32" where
  "varint_value [] = 0"
| "varint_value (b # bs) = segment b OR push_bit 7 (varint_value bs)"

fun varint_wf :: "nat \<Rightarrow> bytes \<Rightarrow> bool" where
  \<comment> \<open>a well-formed encoding of at most \<open>n\<close> bytes\<close>
  "varint_wf 0 bs = False"
| "varint_wf (Suc n) [] = False"
| "varint_wf (Suc n) (b # bs) = (if continued b then varint_wf n bs else bs = [])"

definition varint :: "bytes \<Rightarrow> u32 \<Rightarrow> bool" where
  "varint vs v \<longleftrightarrow> varint_wf 5 vs \<and> v = varint_value vs"

fun varint_prefix :: "nat \<Rightarrow> bytes \<Rightarrow> bytes option" where
  \<comment> \<open>the encoding of at most \<open>n\<close> bytes that a byte string starts with\<close>
  "varint_prefix 0 bs = None"
| "varint_prefix (Suc n) [] = None"
| "varint_prefix (Suc n) (b # bs) =
     (if continued b then map_option ((#) b) (varint_prefix n bs) else Some [b])"

fun varint_number :: "bytes \<Rightarrow> nat" where
  \<comment> \<open>the number the groups stand for, before it is cut to 32 bits\<close>
  "varint_number [] = 0"
| "varint_number (b # bs) = unat b mod 128 + 128 * varint_number bs"

lemma varint_prefix_numeral [simp]:
  "varint_prefix (numeral n) [] = None"
  "varint_prefix (numeral n) (b # bs) =
     (if continued b then map_option ((#) b) (varint_prefix (pred_numeral n) bs) else Some [b])"
  by (simp_all add: numeral_eq_Suc)

lemma varint_wf_numeral [simp]:
  "varint_wf (numeral n) [] = False"
  "varint_wf (numeral n) (b # bs) =
     (if continued b then varint_wf (pred_numeral n) bs else bs = [])"
  by (simp_all add: numeral_eq_Suc)

section \<open>The prefix is the format's own\<close>

lemma varint_prefix_Some_iff:
  "varint_prefix n bs = Some vs \<longleftrightarrow> varint_wf n vs \<and> (\<exists>rest. bs = vs @ rest)"
proof (induction n bs arbitrary: vs rule: varint_prefix.induct)
  case (3 n b bs)
  then show ?case by (cases vs) auto
next
  case (2 n)
  then show ?case by (cases vs) auto
qed simp

lemma varint_prefix_append: "varint_wf n vs \<Longrightarrow> varint_prefix n (vs @ rest) = Some vs"
  by (simp add: varint_prefix_Some_iff)

lemma varint_wf_length: "varint_wf n vs \<Longrightarrow> 1 \<le> length vs \<and> length vs \<le> n"
  by (induction n vs rule: varint_wf.induct) (auto split: if_splits)

lemma varint_wf_nonempty: "varint_wf n vs \<Longrightarrow> vs \<noteq> []"
  using varint_wf_length [of n vs] by auto

lemma varint_length: "varint vs v \<Longrightarrow> 1 \<le> length vs \<and> length vs \<le> 5"
  by (auto simp: varint_def dest: varint_wf_length)

text \<open>No encoding is a proper prefix of another, so a reader has no choice.\<close>

lemma varint_wf_prefix_free:
  "varint_wf n us \<Longrightarrow> varint_wf n vs \<Longrightarrow> us @ xs = vs @ ys \<Longrightarrow> us = vs \<and> xs = ys"
  using varint_prefix_append [of n us xs] varint_prefix_append [of n vs ys] by simp

lemma varint_prefix_take:
  "varint_prefix n bs = Some vs \<Longrightarrow> take (length vs) bs = vs \<and> length vs \<le> length bs"
  by (auto simp: varint_prefix_Some_iff)

lemma varint_prefix_None_long:
  \<comment> \<open>no encoding and enough bytes: the first \<open>n\<close> are all continued\<close>
  "varint_prefix n bs = None \<Longrightarrow> n \<le> length bs \<Longrightarrow> list_all continued (take n bs)"
  by (induction n bs rule: varint_prefix.induct) (auto split: if_splits)

lemma varint_prefix_None_short:
  "varint_prefix n bs = None \<Longrightarrow> length bs < n \<Longrightarrow> list_all continued bs"
  by (induction n bs rule: varint_prefix.induct) (auto split: if_splits)

lemma varint_prefix_continued: "list_all continued (take n bs) \<Longrightarrow> varint_prefix n bs = None"
  by (induction n bs rule: varint_prefix.induct) auto

section \<open>The value is a base-128 number modulo \<open>2 ^ 32\<close>\<close>

lemma unat_segment_u32: "unat (segment b) = unat b mod 128"
proof -
  have "unat b mod 128 < 2 ^ 32"
    by (rule less_trans [of _ 128]) simp_all
  then show ?thesis
    by (simp add: segment_def unsigned_ucast_eq unat_segment take_bit_eq_mod)
qed

lemma segment_lt: "segment b < 128"
  by (simp add: word_less_nat_alt unat_segment_u32)

lemma segment_disjoint: "segment b OR push_bit 7 w = segment b + push_bit 7 w"
proof -
  have "segment b AND push_bit 7 w = 0"
    by (rule bit_word_eqI) (auto simp: segment_def low_seven_bits bit_simps)
  then show ?thesis
    by (simp add: disjunctive_add_eq_or)
qed

lemma unat_varint_value: "unat (varint_value bs) = varint_number bs mod 2 ^ 32"
proof (induction bs)
  case (Cons b bs)
  have "varint_value (b # bs) = segment b + 128 * varint_value bs"
    by (simp only: varint_value.simps segment_disjoint) (simp add: push_bit_eq_mult)
  then have "unat (varint_value (b # bs))
      = (unat b mod 128 + 128 * unat (varint_value bs)) mod 2 ^ 32"
    by (simp add: unat_word_ariths unat_segment_u32 mod_simps)
  also have "\<dots> = (unat b mod 128 + 128 * varint_number bs) mod 2 ^ 32"
    unfolding Cons.IH by (metis mod_add_right_eq mod_mult_right_eq)
  finally show ?case by simp
qed simp

section \<open>Encoding\<close>

function varint_encode :: "nat \<Rightarrow> bytes" where
  "varint_encode n = (if n < 128 then [word_of_nat n]
     else (word_of_nat (n mod 128) OR 0x80) # varint_encode (n div 128))"
  by pat_completeness auto
termination
  by (relation "measure id") auto

declare varint_encode.simps [simp del]

lemma varint_encode_small: "n < 128 \<Longrightarrow> varint_encode n = [word_of_nat n]"
  by (subst varint_encode.simps) simp

lemma varint_encode_large:
  "128 \<le> n \<Longrightarrow> varint_encode n = (word_of_nat (n mod 128) OR 0x80) # varint_encode (n div 128)"
  by (subst varint_encode.simps) simp

lemma continued_iff_bit: "continued b \<longleftrightarrow> bit b 7"
  using and_exp_eq_0_iff_not_bit [of b 7] by (simp add: continued_def)

lemma continued_iff: "continued b \<longleftrightarrow> 128 \<le> unat b"
proof -
  have "unat b < 256" using unsigned_less [of b] by simp
  then have "unat b div 128 = (if 128 \<le> unat b then 1 else 0)" by (simp add: div_nat_eqI)
  moreover have "continued b \<longleftrightarrow> bit (unat b) 7" by (simp add: continued_iff_bit bit_unsigned_iff)
  moreover have "bit (unat b) 7 \<longleftrightarrow> odd (unat b div 128)" by (simp add: bit_iff_odd)
  ultimately show ?thesis by simp
qed

lemma continued_byte:
  assumes "m < 128"
  shows "continued (word_of_nat m OR 0x80)" and "unat (word_of_nat m OR 0x80 :: u8) mod 128 = m"
proof -
  have e: "(0x80 :: u8) = 2 ^ 7" by simp
  show "continued (word_of_nat m OR 0x80)"
    unfolding continued_iff_bit e by (simp add: bit_simps)
  have "unat (word_of_nat m OR 0x80 :: u8) mod 128 = unat (take_bit 7 (word_of_nat m OR 2 ^ 7 :: u8))"
    unfolding e by (simp add: take_bit_eq_mod unat_mod)
  also have "take_bit 7 (word_of_nat m OR 2 ^ 7 :: u8) = take_bit 7 (word_of_nat m)"
    by (rule bit_word_eqI) (auto simp: bit_simps)
  also have "unat (take_bit 7 (word_of_nat m :: u8)) = m"
    using assms by (simp add: take_bit_eq_mod unat_mod unat_of_nat)
  finally show "unat (word_of_nat m OR 0x80 :: u8) mod 128 = m" .
qed

lemma final_byte:
  assumes "m < 128"
  shows "\<not> continued (word_of_nat m)" and "unat (word_of_nat m :: u8) mod 128 = m"
proof -
  have u: "unat (word_of_nat m :: u8) = m"
    using assms by (simp add: unat_of_nat)
  then have "\<not> bit (unat (word_of_nat m :: u8)) 7"
    using assms by (simp add: bit_iff_odd)
  then show "\<not> continued (word_of_nat m)"
    by (simp add: continued_iff_bit bit_unsigned_iff)
  show "unat (word_of_nat m :: u8) mod 128 = m"
    using assms u by simp
qed

lemma varint_encode_wf: "n < 128 ^ k \<Longrightarrow> 0 < k \<Longrightarrow> varint_wf k (varint_encode n)"
proof (induction n arbitrary: k rule: varint_encode.induct)
  case (1 n)
  then obtain j where k: "k = Suc j" by (cases k) auto
  show ?case
  proof (cases "n < 128")
    case True
    then show ?thesis by (simp add: k varint_encode_small final_byte)
  next
    case False
    with "1.prems" k have "n div 128 < 128 ^ j" and "0 < j"
      by (cases j; simp add: div_less_iff_less_mult mult.commute)+
    with "1.IH" False k show ?thesis
      by (simp add: varint_encode_large continued_byte)
  qed
qed

lemma varint_number_encode: "varint_number (varint_encode n) = n"
proof (induction n rule: varint_encode.induct)
  case (1 n)
  show ?case
  proof (cases "n < 128")
    case True
    then show ?thesis by (simp add: varint_encode_small final_byte)
  next
    case False
    with "1.IH" show ?thesis by (simp add: varint_encode_large continued_byte)
  qed
qed

lemma varint_encode_varint: "n < 2 ^ 32 \<Longrightarrow> varint (varint_encode n) (word_of_nat n)"
proof -
  assume n: "n < 2 ^ 32"
  have "unat (varint_value (varint_encode n)) = n"
    using n by (simp add: unat_varint_value varint_number_encode)
  then have "varint_value (varint_encode n) = word_of_nat n"
    by (metis of_nat_unat ucast_id)
  moreover have "varint_wf 5 (varint_encode n)"
    using n by (intro varint_encode_wf) simp_all
  ultimately show ?thesis by (simp add: varint_def)
qed

section \<open>What a reader of the format promises\<close>

locale varint_reader =
  fixes source :: "'s \<Rightarrow> bytes"
    and valid :: "'s \<Rightarrow> bool"
    and read :: "'s \<Rightarrow> (u32 \<times> usize, 'e) outcome"
  assumes read_Some: "valid s \<Longrightarrow> varint_prefix 5 (source s) = Some vs \<Longrightarrow>
      read s = Inr (varint_value vs, length vs)"
    and read_None: "valid s \<Longrightarrow> varint_prefix 5 (source s) = None \<Longrightarrow>
      \<exists>e. read s = Inl (Throw e)"
begin

lemma read_no_fault: "valid s \<Longrightarrow> no_fault (read s)"
  using read_Some read_None by (cases "varint_prefix 5 (source s)") fastforce+

lemma read_iff:
  assumes "valid s"
  shows "read s = Inr (v, n) \<longleftrightarrow> n \<le> length (source s) \<and> varint (take n (source s)) v"
proof (cases "varint_prefix 5 (source s)")
  case None
  then have "\<not> varint_wf 5 (take n (source s))"
    using varint_prefix_append [of 5 "take n (source s)" "drop n (source s)"] by auto
  with None read_None [OF assms] show ?thesis by (auto simp: varint_def)
next
  case (Some vs)
  note prefix = varint_prefix_take [OF Some]
  have wf: "varint_wf 5 vs"
    using Some by (simp add: varint_prefix_Some_iff)
  show ?thesis
  proof
    assume "read s = Inr (v, n)"
    with Some read_Some [OF assms] prefix wf
    show "n \<le> length (source s) \<and> varint (take n (source s)) v"
      by (auto simp: varint_def)
  next
    assume r: "n \<le> length (source s) \<and> varint (take n (source s)) v"
    then have "vs = take n (source s)"
      using Some varint_prefix_append [of 5 "take n (source s)" "drop n (source s)"]
      by (simp add: varint_def)
    with r Some read_Some [OF assms] show "read s = Inr (v, n)"
      by (simp add: varint_def)
  qed
qed

lemma read_encoded:
  "valid s \<Longrightarrow> source s = varint_encode n @ rest \<Longrightarrow> n < 2 ^ 32 \<Longrightarrow>
    read s = Inr (word_of_nat n, length (varint_encode n))"
  using varint_encode_varint [of n] by (simp add: read_iff)

lemma read_bounds:
  assumes "valid s" and "read s = Inr (v, n)"
  shows "1 \<le> n \<and> n \<le> 5 \<and> n \<le> length (source s)"
  using assms varint_length [of "take n (source s)" v] by (auto simp: read_iff)

end

end
