(* ===== verification/Handshake_Format.thy ===== *)
theory Handshake_Format
  imports Varint
begin

text \<open>
  The Minecraft handshake on the wire, as \<open>src/sniffer/PACKET_EXAMPLES.md\<close> lays it out,
  independent of either parser: a body is packet ID 0, a protocol version, a
  length-prefixed server address, a two-byte port and a next state, each number a VarInt;
  a frame is the VarInt length of a body and the body.
\<close>

definition handshake_body :: "bytes \<Rightarrow> u32 \<Rightarrow> bytes \<Rightarrow> bytes \<Rightarrow> u32 \<Rightarrow> bool" where
  "handshake_body body protov addr port ns \<longleftrightarrow>
     (\<exists>pid_enc protov_enc len_enc len ns_enc.
        body = pid_enc @ protov_enc @ len_enc @ addr @ port @ ns_enc \<and>
        varint pid_enc 0 \<and> varint protov_enc protov \<and>
        varint len_enc len \<and> unat len = length addr \<and>
        length port = 2 \<and> varint ns_enc ns)"

lemma handshake_bodyI:
  assumes "varint pid_enc 0" and "varint protov_enc protov" and "varint len_enc len"
    and "unat len = length addr" and "length port = 2" and "varint ns_enc ns"
  shows "handshake_body (pid_enc @ protov_enc @ len_enc @ addr @ port @ ns_enc) protov addr port ns"
  using assms unfolding handshake_body_def by blast

lemma handshake_bodyE:
  assumes "handshake_body body protov addr port ns"
  obtains pid_enc protov_enc len_enc len ns_enc
  where "body = pid_enc @ protov_enc @ len_enc @ addr @ port @ ns_enc"
    and "varint pid_enc 0" and "varint protov_enc protov" and "varint len_enc len"
    and "unat len = length addr" and "length port = 2" and "varint ns_enc ns"
  using assms unfolding handshake_body_def by blast

lemma varint_unique:
  assumes "varint us u" and "varint vs v" and "us @ xs = vs @ ys"
  shows "us = vs \<and> u = v \<and> xs = ys"
  using assms varint_wf_prefix_free [of 5 us vs xs ys] by (auto simp: varint_def)

text \<open>
  The format is unambiguous: what follows a body, and every field of it, is fixed by the
  bytes.
\<close>

lemma handshake_body_unique:
  assumes "handshake_body b p a q n" and "handshake_body b' p' a' q' n'"
    and "b @ rest = b' @ rest'"
  shows "b = b' \<and> p = p' \<and> a = a' \<and> q = q' \<and> n = n' \<and> rest = rest'"
proof -
  from assms(1) obtain e1 e2 e3 l e4 where
    b: "b = e1 @ e2 @ e3 @ a @ q @ e4" "varint e1 0" "varint e2 p" "varint e3 l"
      "unat l = length a" "length q = 2" "varint e4 n"
    by (rule handshake_bodyE)
  from assms(2) obtain f1 f2 f3 l' f4 where
    b': "b' = f1 @ f2 @ f3 @ a' @ q' @ f4" "varint f1 0" "varint f2 p'" "varint f3 l'"
      "unat l' = length a'" "length q' = 2" "varint f4 n'"
    by (rule handshake_bodyE)
  from assms(3) b(1) b'(1)
  have "e1 @ e2 @ e3 @ a @ q @ e4 @ rest = f1 @ f2 @ f3 @ a' @ q' @ f4 @ rest'"
    by simp
  with varint_unique [OF b(2) b'(2)] have 1: "e1 = f1"
    "e2 @ e3 @ a @ q @ e4 @ rest = f2 @ f3 @ a' @ q' @ f4 @ rest'" by blast+
  with varint_unique [OF b(3) b'(3)] have 2: "e2 = f2" "p = p'"
    "e3 @ a @ q @ e4 @ rest = f3 @ a' @ q' @ f4 @ rest'" by blast+
  with varint_unique [OF b(4) b'(4)] have 3: "e3 = f3" "l = l'"
    "a @ q @ e4 @ rest = a' @ q' @ f4 @ rest'" by blast+
  with b b' have 4: "a = a'" "q = q'" "e4 @ rest = f4 @ rest'"
    by (auto simp: append_eq_append_conv)
  with varint_unique [OF b(7) b'(7)] have "e4 = f4" "n = n'" "rest = rest'" by blast+
  with 1 2 3 4 b(1) b'(1) show ?thesis by simp
qed

section \<open>Frames\<close>

definition starts_with_handshake :: "nat \<Rightarrow> nat \<Rightarrow> bytes \<Rightarrow> bool" where
  \<comment> \<open>a frame with a body of at most \<open>max_body\<close> bytes and an address of at most
      \<open>max_addr\<close> bytes, next state 1, 2 or 3, then anything\<close>
  "starts_with_handshake max_body max_addr payload \<longleftrightarrow>
     (\<exists>len_enc frame_len body rest protov addr port ns.
        payload = len_enc @ body @ rest \<and>
        varint len_enc frame_len \<and> unat frame_len = length body \<and>
        length body \<le> max_body \<and> length addr \<le> max_addr \<and>
        handshake_body body protov addr port ns \<and> ns \<in> {1, 2, 3})"

lemma starts_with_handshakeI:
  assumes "payload = len_enc @ body @ rest" and "varint len_enc frame_len"
    and "unat frame_len = length body" and "length body \<le> max_body"
    and "length addr \<le> max_addr" and "handshake_body body protov addr port ns"
    and "ns \<in> {1, 2, 3}"
  shows "starts_with_handshake max_body max_addr payload"
  unfolding starts_with_handshake_def using assms by blast

lemma handshake_body_length:
  "handshake_body body protov addr port ns \<Longrightarrow> 6 \<le> length body"
  by (elim handshake_bodyE) (auto dest!: varint_length)

lemma starts_with_handshake_nonempty:
  "starts_with_handshake m a payload \<Longrightarrow> payload \<noteq> []"
  by (auto simp: starts_with_handshake_def dest: handshake_body_length)

text \<open>Whether a payload starts with a handshake depends on no byte after the frame.\<close>

lemma starts_with_handshake_append:
  "starts_with_handshake m a payload \<Longrightarrow> starts_with_handshake m a (payload @ more)"
  unfolding starts_with_handshake_def by (metis append.assoc)

end
