(* ===== verification/Minecraft.thy ===== *)
theory Minecraft
  imports Ebpf_Context Handshake_Format Fixtures
begin

unbundle bit_operations_syntax

text \<open>
  The handshake check of the XDP program, \<open>ebpf/minecraft.rs\<close>: \<open>byte_at\<close>,
  \<open>read_varint\<close> and \<open>check_handshake\<close> with the file's constants. Every byte is read
  through the context, one at a time, and every offset is computed on \<open>usize\<close>. Names that
  \<open>parser.rs\<close> has too carry the suffix \<open>_ctx\<close>.
\<close>

section \<open>Constants\<close>

definition MAX_VARINT_BYTES_ctx :: usize where
  "MAX_VARINT_BYTES_ctx = 5"

definition CONTINUE_BIT_ctx :: u8 where
  "CONTINUE_BIT_ctx = 0b10000000"

definition SEGMENT_BIT_ctx :: u8 where
  "SEGMENT_BIT_ctx = 0b01111111"

definition MAX_SERVER_ADDRESS_BYTES :: u32 where
  "MAX_SERVER_ADDRESS_BYTES = 255 * 3"

definition MAX_HANDSHAKE_LEN :: u32 where
  "MAX_HANDSHAKE_LEN = 1 + 5 + 2 + MAX_SERVER_ADDRESS_BYTES + 2 + 1"

definition ADDRESS_LEN_MASK :: usize where
  "ADDRESS_LEN_MASK = 0x3FF"

section \<open>Operations\<close>

definition byte_at :: "xdp_context \<Rightarrow> usize \<Rightarrow> (u8, xdp_action) outcome" where
  "byte_at ctx offset =
     and_then (map_err (ctx_index 1 ctx offset) action_drop) (\<lambda>ptr.
     and_then (extract_ref 1 ctx ptr) (\<lambda>r. Inr (r ! 0)))"

fun read_varint_ctx_loop ::
    "xdp_context \<Rightarrow> usize \<Rightarrow> u32 \<Rightarrow> usize list \<Rightarrow> (u32 \<times> usize, xdp_action) outcome" where
  \<comment> \<open>the \<open>for\<close> loop over the indices left, and the error after it\<close>
  "read_varint_ctx_loop ctx offset value [] = Inl (Throw action_drop)"
| "read_varint_ctx_loop ctx offset value (i # is) =
     and_then (usize_add offset i) (\<lambda>o'.
     and_then (byte_at ctx o') (\<lambda>byte.
     let value = value OR push_bit (7 * i) (ucast (byte AND SEGMENT_BIT_ctx)) in
     if byte AND CONTINUE_BIT_ctx = 0 then and_then (usize_add i 1) (\<lambda>n. Inr (value, n))
     else read_varint_ctx_loop ctx offset value is))"

definition read_varint_ctx :: "xdp_context \<Rightarrow> usize \<Rightarrow> (u32 \<times> usize, xdp_action) outcome" where
  "read_varint_ctx ctx offset = read_varint_ctx_loop ctx offset 0 [0..<MAX_VARINT_BYTES_ctx]"

definition check_handshake :: "xdp_context \<Rightarrow> usize \<Rightarrow> usize \<Rightarrow> (unit, xdp_action) outcome" where
  "check_handshake ctx offset len =
     and_then (read_varint_ctx ctx offset) (\<lambda>(frame_len, prefix_len).
     if frame_len = 0 \<or> frame_len > MAX_HANDSHAKE_LEN then Inl (Throw action_drop) else
     let frame_len = unat frame_len in
     and_then (usize_add prefix_len frame_len) (\<lambda>needed.
     if needed > len then Inl (Throw action_drop) else
     and_then (usize_add offset prefix_len) (\<lambda>body.
     let pos = 0 in
     and_then (usize_add body pos) (\<lambda>at.
     and_then (read_varint_ctx ctx at) (\<lambda>(packet_id, n).
     if packet_id \<noteq> 0 then Inl (Throw action_drop) else
     and_then (usize_add pos n) (\<lambda>pos.
     and_then (usize_add body pos) (\<lambda>at.
     and_then (read_varint_ctx ctx at) (\<lambda>(_, n).
     and_then (usize_add pos n) (\<lambda>pos.
     and_then (usize_add body pos) (\<lambda>at.
     and_then (read_varint_ctx ctx at) (\<lambda>(address_len, n).
     if address_len > MAX_SERVER_ADDRESS_BYTES then Inl (Throw action_drop) else
     and_then (usize_add n (unat address_len AND ADDRESS_LEN_MASK)) (\<lambda>step.
     and_then (usize_add pos step) (\<lambda>pos.
     and_then (usize_add body pos) (\<lambda>at.
     and_then (usize_add at 1) (\<lambda>at.
     and_then (byte_at ctx at) (\<lambda>_.
     and_then (usize_add pos 2) (\<lambda>pos.
     and_then (usize_add body pos) (\<lambda>at.
     and_then (read_varint_ctx ctx at) (\<lambda>(next_state, n).
     if \<not> (1 \<le> next_state \<and> next_state \<le> 3) then Inl (Throw action_drop) else
     and_then (usize_add pos n) (\<lambda>pos.
     if pos \<noteq> frame_len then Inl (Throw action_drop) else
     Inr ()))))))))))))))))))))"

section \<open>Reading a byte and a VarInt\<close>

lemma byte_at_eq:
  assumes "packet_ctx ctx bs" and "off + 1 < headroom"
  shows "byte_at ctx off = (if off < length bs then Inr (bs ! off) else Inl (Throw XDP_DROP))"
proof (cases "off < length bs")
  case True
  then have "take 1 (drop off bs) ! 0 = bs ! off" by simp
  with True assms show ?thesis
    using xdp.index_in [OF assms(1), of off 1] xdp.deref_in [OF assms(1), of off 1]
    by (simp add: byte_at_def)
next
  case False
  with assms show ?thesis
    using xdp.index_out [OF assms(1), of off 1] by (simp add: byte_at_def action_defs)
qed

lemmas ctx_bits = CONTINUE_BIT_ctx_def SEGMENT_BIT_ctx_def

lemma read_varint_ctx_loop_eq:
  assumes "packet_ctx ctx bs" and "off + 6 < headroom"
  shows "i + n = 5 \<Longrightarrow> read_varint_ctx_loop ctx off v [i..<5] =
    (case varint_prefix n (drop (off + i) bs) of
       Some vs \<Rightarrow> Inr (v OR push_bit (7 * i) (varint_value vs), i + length vs)
     | None \<Rightarrow> Inl (Throw XDP_DROP))"
proof (induction n arbitrary: i v)
  case 0
  then show ?case by (simp add: action_defs)
next
  case (Suc n)
  then have step: "[i..<5] = i # [Suc i..<5]" "off + i + 1 < headroom" "off + i < 2 ^ 64"
    using assms(2) by (simp_all add: upt_conv_Cons headroom_def)
  note read = byte_at_eq [OF assms(1) step(2)]
  show ?case
  proof (cases "off + i < length bs")
    case False
    with step(3) show ?thesis by (simp add: step(1) read)
  next
    case True
    define b where "b = bs ! (off + i)"
    have drop: "drop (off + i) bs = b # drop (off + Suc i) bs"
      using True by (simp add: Cons_nth_drop_Suc b_def)
    have c: "b AND 0x80 = 0 \<longleftrightarrow> \<not> continued b" and s: "ucast (b AND 0x7F) = segment b"
      by (simp_all add: continued_def segment_def)
    have i1: "i + 1 < 2 ^ 64" using Suc.prems by simp
    have "read_varint_ctx_loop ctx off v [i..<5] =
        (if continued b then read_varint_ctx_loop ctx off (v OR push_bit (7 * i) (segment b)) [Suc i..<5]
         else Inr (v OR push_bit (7 * i) (segment b), i + 1))"
      using True step(3) i1 by (simp add: step(1) read ctx_bits c s flip: b_def)
    with Suc.IH [of "Suc i" "v OR push_bit (7 * i) (segment b)"] Suc.prems show ?thesis
      unfolding drop by (auto simp: push_bit_or push_bit_push_bit or.assoc add.commute split: option.splits)
  qed
qed

lemma read_varint_ctx_eq:
  assumes "packet_ctx ctx bs" and "off + 6 < headroom"
  shows "read_varint_ctx ctx off = (case varint_prefix 5 (drop off bs) of
       Some vs \<Rightarrow> Inr (varint_value vs, length vs)
     | None \<Rightarrow> Inl (Throw XDP_DROP))"
  using read_varint_ctx_loop_eq [OF assms, of 0 5 0]
  by (simp add: read_varint_ctx_def MAX_VARINT_BYTES_ctx_def split: option.splits)

text \<open>The reader on packet memory keeps the same promises as the one on slices.\<close>

interpretation mem: varint_reader
  "\<lambda>(ctx, bs, off). drop off bs" "\<lambda>(ctx, bs, off). packet_ctx ctx bs \<and> off + 6 < headroom"
  "\<lambda>(ctx, bs, off). read_varint_ctx ctx off"
  by unfold_locales (auto simp: read_varint_ctx_eq)

lemma read_varint_ctx_InrE:
  assumes "packet_ctx ctx bs" and "off + 6 < headroom" and "read_varint_ctx ctx off = Inr (v, n)"
  obtains vs rest where "drop off bs = vs @ rest" and "varint vs v" and "n = length vs"
    and "1 \<le> n" and "n \<le> 5" and "drop (off + n) bs = rest"
proof
  have r: "n \<le> length (drop off bs)" "varint (take n (drop off bs)) v"
    using mem.read_iff [of "(ctx, bs, off)" v n] assms by auto
  show "drop off bs = take n (drop off bs) @ drop n (drop off bs)" by (rule append_take_drop_id [symmetric])
  show "varint (take n (drop off bs)) v" by (rule r)
  show "n = length (take n (drop off bs))" using r(1) by simp
  show "1 \<le> n" and "n \<le> 5"
    using mem.read_bounds [of "(ctx, bs, off)" v n] assms by auto
  show "drop (off + n) bs = drop n (drop off bs)" by (simp add: add.commute)
qed

lemma read_varint_ctx_append:
  "packet_ctx ctx bs \<Longrightarrow> off + 6 < headroom \<Longrightarrow> drop off bs = vs @ rest \<Longrightarrow> varint vs v \<Longrightarrow>
    read_varint_ctx ctx off = Inr (v, length vs)"
  using mem.read_iff [of "(ctx, bs, off)" v "length vs"] by simp

lemma drop_past: "drop off bs = vs @ rest \<Longrightarrow> drop (off + length vs) bs = rest"
  by (metis append_eq_conv_conj drop_drop add.commute)

lemma no_fault_read_varint_ctx:
  "packet_ctx ctx bs \<Longrightarrow> off + 6 < headroom \<Longrightarrow> no_fault (read_varint_ctx ctx off)"
  using mem.read_no_fault [of "(ctx, bs, off)"] by simp

lemma throws_read_varint_ctx:
  "packet_ctx ctx bs \<Longrightarrow> off + 6 < headroom \<Longrightarrow> throws_only {XDP_DROP} (read_varint_ctx ctx off)"
  by (simp add: read_varint_ctx_eq split: option.splits)

section \<open>The address mask\<close>

lemma address_mask:
  assumes "\<not> address_len > MAX_SERVER_ADDRESS_BYTES"
  shows "unat address_len AND ADDRESS_LEN_MASK = unat address_len" and "unat address_len \<le> 765"
proof -
  show le: "unat address_len \<le> 765"
    using assms by (simp add: MAX_SERVER_ADDRESS_BYTES_def not_less word_le_nat_alt)
  have "unat address_len AND ADDRESS_LEN_MASK = take_bit 10 (unat address_len)"
    by (simp add: ADDRESS_LEN_MASK_def take_bit_eq_mask mask_eq_exp_minus_1)
  also have "\<dots> = unat address_len"
    using le by (simp add: take_bit_nat_eq_self)
  finally show "unat address_len AND ADDRESS_LEN_MASK = unat address_len" .
qed

lemma frame_len_bounds:
  "\<not> frame_len > MAX_HANDSHAKE_LEN \<longleftrightarrow> unat frame_len \<le> 776"
  by (simp add: MAX_HANDSHAKE_LEN_def MAX_SERVER_ADDRESS_BYTES_def not_less word_le_nat_alt)

lemma next_state_bounds: "1 \<le> next_state \<and> next_state \<le> 3 \<longleftrightarrow> (next_state :: u32) \<in> {1, 2, 3}"
proof -
  have "unat next_state \<le> 3 \<and> 1 \<le> unat next_state \<longleftrightarrow> unat next_state \<in> {1, 2, 3}" by auto
  then show ?thesis by (auto simp: word_le_nat_alt word_unat_eq_iff)
qed

section \<open>What the check accepts\<close>

lemma check_handshake_complete:
  assumes p: "packet_ctx ctx bs" and off: "off \<le> 2000"
    and sw: "starts_with_handshake 776 765 (take len (drop off bs))"
  shows "check_handshake ctx off len = Inr ()"
proof -
  from sw obtain e1 flen body rest protov addr port ns where
    pl: "take len (drop off bs) = e1 @ body @ rest" and e1: "varint e1 flen"
    and flen: "unat flen = length body" "length body \<le> 776" and addr: "length addr \<le> 765"
    and body: "handshake_body body protov addr port ns" and ns: "ns \<in> {1, 2, 3}"
    unfolding starts_with_handshake_def by blast
  from body obtain e2 e3 e4 alen e5 where
    b: "body = e2 @ e3 @ e4 @ addr @ port @ e5" and v: "varint e2 0" "varint e3 protov" "varint e4 alen"
      "unat alen = length addr" "length port = 2" "varint e5 ns"
    by (rule handshake_bodyE)
  define more where "more = rest @ drop len (drop off bs)"
  have d1: "drop off bs = e1 @ e2 @ e3 @ e4 @ addr @ port @ e5 @ more"
    using append_take_drop_id [of len "drop off bs"] unfolding pl b more_def by simp
  note d2 = drop_past [OF d1]
  note d3 = drop_past [OF d2, unfolded add.assoc, folded add.assoc [of off]]
  note d4 = drop_past [OF d2 [THEN drop_past]]
  note d5 = drop_past [OF d4]
  note d6 = drop_past [OF drop_past [OF d5]]
  note l = varint_length [OF e1] varint_length [OF v(1)] varint_length [OF v(2)] varint_length [OF v(3)]
    varint_length [OF v(6)]
  have len: "length e1 + length body \<le> len"
    using arg_cong [OF pl, of length] by simp
  have inside: "off + length e1 + length e2 + length e3 + length e4 + length addr + 1 < length bs"
    using arg_cong [OF d1, of length] v(5) l by simp
  have "frame_len_ok": "\<not> flen > MAX_HANDSHAKE_LEN" "flen \<noteq> 0"
    using flen handshake_body_length [OF body] by (auto simp: frame_len_bounds)
  have alen: "\<not> alen > MAX_SERVER_ADDRESS_BYTES"
    using addr v(4) by (simp add: MAX_SERVER_ADDRESS_BYTES_def not_less word_le_nat_alt)
  let ?b = "off + length e1" and ?p = "length e2 + length e3 + (length e4 + length addr)"
  have r: "read_varint_ctx ctx off = Inr (flen, length e1)"
    "read_varint_ctx ctx ?b = Inr (0, length e2)"
    "read_varint_ctx ctx (?b + length e2) = Inr (protov, length e3)"
    "read_varint_ctx ctx (?b + (length e2 + length e3)) = Inr (alen, length e4)"
    "read_varint_ctx ctx (?b + (?p + 2)) = Inr (ns, length e5)"
    using off l addr read_varint_ctx_append [OF p _ d1 e1] read_varint_ctx_append [OF p _ d2 v(1)]
      read_varint_ctx_append [OF p _ d3 v(2)] read_varint_ctx_append [OF p _ d4 v(3)]
      read_varint_ctx_append [OF p _ d6 v(6)] v(5)
    by (simp_all add: headroom_def add.assoc)
  have at: "byte_at ctx (?b + ?p + 1) = Inr (bs ! (?b + ?p + 1))"
    using byte_at_eq [OF p, of "?b + ?p + 1"] inside off l addr by (simp add: headroom_def add.assoc)
  have sums: "length body = ?p + 2 + length e5" "length e1 + length body < 2 ^ 64"
    "?b + ?p + 2 < 2 ^ 64" "?p + 2 + length e5 < 2 ^ 64"
    using b v(5) flen(2) l off addr by simp_all
  show ?thesis
    unfolding check_handshake_def
    using frame_len_ok len alen v(4) sums ns address_mask(1) [OF alen]
    by (simp add: r at flen next_state_bounds usize_add_def Let_def del: One_nat_def add_2_eq_Suc')
qed

text \<open>What each read of an accepting run returned, the mask taken away.\<close>

lemma check_handshake_InrE:
  assumes "check_handshake ctx off len = Inr ()"
  obtains flen n1 n2 protov n3 alen n4 b ns n5
  where "read_varint_ctx ctx off = Inr (flen, n1)" and "unat flen \<le> 776" and "n1 + unat flen \<le> len"
    and "read_varint_ctx ctx (off + n1) = Inr (0, n2)"
    and "read_varint_ctx ctx (off + n1 + n2) = Inr (protov, n3)"
    and "read_varint_ctx ctx (off + n1 + (n2 + n3)) = Inr (alen, n4)" and "unat alen \<le> 765"
    and "byte_at ctx (off + n1 + (n2 + n3 + (n4 + unat alen)) + 1) = Inr b"
    and "read_varint_ctx ctx (off + n1 + (n2 + n3 + (n4 + unat alen) + 2)) = Inr (ns, n5)"
    and "ns \<in> {1, 2, 3}" and "n2 + n3 + (n4 + unat alen) + 2 + n5 = unat flen"
proof -
  from assms have "\<exists>flen n1 n2 protov n3 alen n4 b ns n5.
      read_varint_ctx ctx off = Inr (flen, n1) \<and>
      \<not> flen > MAX_HANDSHAKE_LEN \<and> n1 + unat flen \<le> len \<and>
      read_varint_ctx ctx (off + n1) = Inr (0, n2) \<and>
      read_varint_ctx ctx (off + n1 + n2) = Inr (protov, n3) \<and>
      read_varint_ctx ctx (off + n1 + (n2 + n3)) = Inr (alen, n4) \<and>
      \<not> alen > MAX_SERVER_ADDRESS_BYTES \<and>
      byte_at ctx (off + n1 + (n2 + n3 + (n4 + (unat alen AND ADDRESS_LEN_MASK))) + 1) = Inr b \<and>
      read_varint_ctx ctx (off + n1 + (n2 + n3 + (n4 + (unat alen AND ADDRESS_LEN_MASK)) + 2)) = Inr (ns, n5) \<and>
      1 \<le> ns \<and> ns \<le> 3 \<and>
      n2 + n3 + (n4 + (unat alen AND ADDRESS_LEN_MASK)) + 2 + n5 = unat flen"
    unfolding check_handshake_def
    by (auto simp: and_then_Inr_iff Let_def split: if_splits simp del: One_nat_def add_2_eq_Suc')
  with that show thesis
    using address_mask next_state_bounds frame_len_bounds by metis
qed

lemma address_and_port:
  assumes "drop at bs = r" and "at + n + 2 \<le> length bs" and "drop (at + n + 2) bs = rest"
  obtains addr port where "r = addr @ port @ rest" and "length addr = n" and "length port = 2"
proof
  have "drop (n + 2) r = rest"
    unfolding assms(1) [symmetric] assms(3) [symmetric] by (simp add: ac_simps)
  then show "r = take n r @ take 2 (drop n r) @ rest"
    by (metis append_take_drop_id drop_drop add.commute)
  have "n + 2 \<le> length r"
    using assms(2) unfolding assms(1) [symmetric] by simp
  then show "length (take n r) = n" and "length (take 2 (drop n r)) = 2" by simp_all
qed

lemma take_past: "length xs \<le> n \<Longrightarrow> take n (xs @ ys) = xs @ take (n - length xs) ys"
  by simp

lemma framed_pieces:
  assumes "payload = e1 @ e2 @ e3 @ e4 @ addr @ port @ e5 @ rest"
    and "varint e1 flen" and "varint e2 0" and "varint e3 protov" and "varint e4 alen" and "varint e5 ns"
    and "unat alen = length addr" and "length addr \<le> 765" and "length port = 2" and "ns \<in> {1, 2, 3}"
    and "unat flen = length (e2 @ e3 @ e4 @ addr @ port @ e5)" and "unat flen \<le> 776"
    and "length e1 + unat flen \<le> len"
  shows "starts_with_handshake 776 765 (take len payload)"
proof (rule starts_with_handshakeI)
  let ?body = "e2 @ e3 @ e4 @ addr @ port @ e5"
  have "payload = (e1 @ ?body) @ rest" and "length (e1 @ ?body) \<le> len"
    using assms(1,11,13) by simp_all
  then have "take len payload = (e1 @ ?body) @ take (len - length (e1 @ ?body)) rest"
    by (simp only: take_past)
  then show "take len payload = e1 @ ?body @ take (len - length (e1 @ ?body)) rest" by simp
  show "handshake_body ?body protov addr port ns"
    using assms by (intro handshake_bodyI)
qed (use assms in simp_all)

lemma check_handshake_sound:
  assumes p: "packet_ctx ctx bs" and off: "off \<le> 2000" and len: "off + len \<le> length bs"
    and ok: "check_handshake ctx off len = Inr ()"
  shows "starts_with_handshake 776 765 (take len (drop off bs))"
proof -
  from ok obtain flen n1 n2 protov n3 alen n4 b ns n5 where
    c1: "read_varint_ctx ctx off = Inr (flen, n1)" "unat flen \<le> 776" "n1 + unat flen \<le> len"
    and c: "read_varint_ctx ctx (off + n1) = Inr (0, n2)"
      "read_varint_ctx ctx (off + n1 + n2) = Inr (protov, n3)"
      "read_varint_ctx ctx (off + n1 + (n2 + n3)) = Inr (alen, n4)"
      "unat alen \<le> 765"
      "byte_at ctx (off + n1 + (n2 + n3 + (n4 + unat alen)) + 1) = Inr b"
      "read_varint_ctx ctx (off + n1 + (n2 + n3 + (n4 + unat alen) + 2)) = Inr (ns, n5)"
      "ns \<in> {1, 2, 3}" "n2 + n3 + (n4 + unat alen) + 2 + n5 = unat flen"
    by (rule check_handshake_InrE)
  have "off + 6 < headroom" using off by (simp add: headroom_def)
  from read_varint_ctx_InrE [OF p this c1(1)] obtain e1 r1 where
    e1: "drop off bs = e1 @ r1" "varint e1 flen" "n1 = length e1" "n1 \<le> 5" "drop (off + n1) bs = r1" .
  have "off + n1 + 6 < headroom" using off e1(4) by (simp add: headroom_def)
  from read_varint_ctx_InrE [OF p this c(1)] obtain e2 r2 where
    e2: "drop (off + n1) bs = e2 @ r2" "varint e2 0" "n2 = length e2" "n2 \<le> 5"
      "drop (off + n1 + n2) bs = r2" .
  have "off + n1 + n2 + 6 < headroom" using off e1(4) e2(4) by (simp add: headroom_def)
  from read_varint_ctx_InrE [OF p this c(2)] obtain e3 r3 where
    e3: "drop (off + n1 + n2) bs = e3 @ r3" "varint e3 protov" "n3 = length e3" "n3 \<le> 5"
      "drop (off + n1 + n2 + n3) bs = r3" .
  have "off + n1 + (n2 + n3) + 6 < headroom" using off e1(4) e2(4) e3(4) by (simp add: headroom_def)
  from read_varint_ctx_InrE [OF p this c(3)] obtain e4 r4 where
    e4: "drop (off + n1 + (n2 + n3)) bs = e4 @ r4" "varint e4 alen" "n4 = length e4" "n4 \<le> 5"
      "drop (off + n1 + (n2 + n3) + n4) bs = r4" .
  have "off + n1 + (n2 + n3 + (n4 + unat alen) + 2) + 6 < headroom"
    using off e1(4) e2(4) e3(4) e4(4) c(4) by (simp add: headroom_def)
  from read_varint_ctx_InrE [OF p this c(6)] obtain e5 r5 where
    e5: "drop (off + n1 + (n2 + n3 + (n4 + unat alen) + 2)) bs = e5 @ r5" "varint e5 ns" "n5 = length e5" .
  have "off + n1 + (n2 + n3 + (n4 + unat alen)) + 1 < length bs"
    using byte_at_eq [OF p, of "off + n1 + (n2 + n3 + (n4 + unat alen)) + 1"] c(4,5) off e1(4) e2(4) e3(4) e4(4)
    by (simp add: headroom_def split: if_splits)
  with address_and_port [OF e4(5), of "unat alen" "e5 @ r5"] e5(1) obtain addr port where
    "r4 = addr @ port @ e5 @ r5" and sizes: "length addr = unat alen" "length port = 2"
    by (auto simp: add.assoc)
  with e1 e2 e3 e4 have "drop off bs = e1 @ e2 @ e3 @ e4 @ addr @ port @ e5 @ r5"
    by (simp add: add.assoc)
  from framed_pieces [OF this e1(2) e2(2) e3(2) e4(2) e5(2)] sizes c(4,7,8) c1(2,3) e1(3) e2(3) e3(3) e4(3) e5(3)
  show ?thesis by simp
qed

text \<open>Every other outcome is the drop action: no read faults, no sum overflows.\<close>

definition drops_or_ok :: "('a, xdp_action) outcome \<Rightarrow> bool" where
  "drops_or_ok m \<longleftrightarrow> no_fault m \<and> throws_only {XDP_DROP} m"

lemma drops_or_ok_base [simp]: "drops_or_ok (Inr x)" "drops_or_ok (Inl (Throw action_drop))"
  by (simp_all add: drops_or_ok_def action_defs)

lemma drops_or_ok_read:
  assumes "packet_ctx ctx bs" and "off + 6 < headroom"
    and "\<And>v n. unat v < 2 ^ 32 \<Longrightarrow> n \<le> 5 \<Longrightarrow> drops_or_ok (k v n)"
  shows "drops_or_ok (and_then (read_varint_ctx ctx off) (\<lambda>(v, n). k v n))"
proof (cases "varint_prefix 5 (drop off bs)")
  case (Some vs)
  then have "length vs \<le> 5" "unat (varint_value vs) < 2 ^ 32"
    by (auto simp: varint_prefix_Some_iff unat_varint_value dest: varint_wf_length)
  with assms Some show ?thesis by (simp add: read_varint_ctx_eq)
next
  case None
  with assms(1,2) show ?thesis by (simp add: read_varint_ctx_eq drops_or_ok_def)
qed

lemma drops_or_ok_byte:
  "packet_ctx ctx bs \<Longrightarrow> off + 1 < headroom \<Longrightarrow> (\<And>b. drops_or_ok (k b)) \<Longrightarrow>
    drops_or_ok (and_then (byte_at ctx off) k)"
  by (simp add: byte_at_eq drops_or_ok_def)

lemma drops_or_ok_add:
  "a + b < 2 ^ 64 \<Longrightarrow> drops_or_ok (k (a + b)) \<Longrightarrow> drops_or_ok (and_then (usize_add a b) k)"
  by simp

lemma drops_or_ok_mask:
  assumes "\<not> address_len > MAX_SERVER_ADDRESS_BYTES" and "n + 765 < 2 ^ 64"
    and "\<And>w. w \<le> n + 765 \<Longrightarrow> drops_or_ok (k w)"
  shows "drops_or_ok (and_then (usize_add n (unat address_len AND ADDRESS_LEN_MASK)) k)"
  using address_mask [OF assms(1)] assms(2,3) by simp

lemma drops_or_ok_if:
  "(c \<Longrightarrow> drops_or_ok m) \<Longrightarrow> (\<not> c \<Longrightarrow> drops_or_ok m') \<Longrightarrow> drops_or_ok (if c then m else m')"
  by simp

lemma check_handshake_drops:
  assumes p: "packet_ctx ctx bs" and off: "off \<le> 2000"
  shows "drops_or_ok (check_handshake ctx off len)"
  using off unfolding check_handshake_def Let_def
  by (intro drops_or_ok_read [OF p] drops_or_ok_byte [OF p] drops_or_ok_mask drops_or_ok_add
      drops_or_ok_if drops_or_ok_base) (simp_all add: headroom_def)

lemma check_handshake_eq:
  assumes "packet_ctx ctx bs" and "off \<le> 2000" and "off + len \<le> length bs"
  shows "check_handshake ctx off len =
    (if starts_with_handshake 776 765 (take len (drop off bs)) then Inr () else Inl (Throw XDP_DROP))"
proof (cases "check_handshake ctx off len = Inr ()")
  case True
  with check_handshake_sound [OF assms] show ?thesis by simp
next
  case False
  with check_handshake_complete [OF assms(1,2), of len]
  have "\<not> starts_with_handshake 776 765 (take len (drop off bs))" by auto
  moreover have "check_handshake ctx off len = Inl (Throw XDP_DROP)"
    using check_handshake_drops [OF assms(1,2), of len] False
    by (auto simp: drops_or_ok_def elim!: no_faultE dest: throws_onlyD)
  ultimately show ?thesis by simp
qed

section \<open>The test suite's handshake builder\<close>

lemma address_len_bytes_eq: "address_len_bytes n = varint_encode n"
proof (induction n rule: address_len_bytes.induct)
  case (1 n)
  show ?case
  proof (cases "n < 128")
    case True
    then show ?thesis by (subst address_len_bytes.simps) (simp add: varint_encode_small)
  next
    case False
    then have "n div 128 \<noteq> 0" by (simp add: div_eq_0_iff)
    with 1 False show ?thesis
      by (subst address_len_bytes.simps) (simp add: varint_encode_large)
  qed
qed

lemma varint_one_byte:
  assumes "unat (b :: u8) < 128"
  shows "varint [b] (ucast b)"
  using varint_encode_varint [of "unat b"] assms by (simp add: varint_encode_small)

lemma varint_encode_length: "n < 128 ^ k \<Longrightarrow> 0 < k \<Longrightarrow> length (varint_encode n) \<le> k"
  using varint_encode_wf varint_wf_length by blast

lemma varint_encode_two:
  "n < 2 ^ 14 \<Longrightarrow> (if n < 128 then [word_of_nat n]
     else [word_of_nat (n mod 2 ^ 7) OR 0x80, word_of_nat (n div 2 ^ 7)]) = varint_encode n"
  by (simp add: varint_encode_small varint_encode_large)

lemma handshake_wire_Some:
  assumes "handshake_wire address ns = Some w" and "unat ns < 128" and "length address < 16376"
  obtains body where "w = varint_encode (length body) @ body" and "length body < 2 ^ 14"
    and "handshake_body body 769 address [0x63, 0xDD] (ucast ns)"
    and "length address \<le> 765 \<Longrightarrow> length body \<le> 776"
proof
  let ?body = "[0x00] @ [0x81, 0x06] @ varint_encode (length address) @ address @ [0x63, 0xDD] @ [ns]"
  have le: "length (varint_encode (length address)) \<le> 2"
    using assms(3) by (intro varint_encode_length) simp_all
  with assms(3) show len: "length ?body < 2 ^ 14" by simp
  have "w = (if length ?body < 128 then [word_of_nat (length ?body)]
     else [word_of_nat (length ?body mod 2 ^ 7) OR 0x80, word_of_nat (length ?body div 2 ^ 7)]) @ ?body"
    using assms(1) by (auto simp: handshake_wire_def Let_def address_len_bytes_eq split: if_splits)
  also have "(if length ?body < 128 then [word_of_nat (length ?body)]
     else [word_of_nat (length ?body mod 2 ^ 7) OR 0x80, word_of_nat (length ?body div 2 ^ 7)])
     = varint_encode (length ?body)"
    by (rule varint_encode_two [OF len])
  finally show "w = varint_encode (length ?body) @ ?body" .
  show "handshake_body ?body 769 address [0x63, 0xDD] (ucast ns)"
  proof (rule handshake_bodyI)
    show "varint [0] 0" "varint [0x81, 0x06] 769"
      by (simp_all add: varint_def continued_def segment_def)
    show "varint (varint_encode (length address)) (word_of_nat (length address))"
      using assms(3) by (intro varint_encode_varint) simp
    show "unat (word_of_nat (length address) :: u32) = length address"
      using assms(3) by (simp add: unat_of_nat)
  qed (use assms(2) in \<open>simp_all add: varint_one_byte\<close>)
  show "length ?body \<le> 776" if "length address \<le> 765"
    using le that by simp
qed

lemma starts_with_wire_terminated:
  assumes "handshake_wire address ns = Some w" and "unat ns < 128" and "length address < 16376"
  shows "starts_with_handshake 776 765 (w @ extra) \<longleftrightarrow> length address \<le> 765 \<and> ns \<in> {1, 2, 3}"
proof -
  from assms obtain body where
    b: "w = varint_encode (length body) @ body" "length body < 2 ^ 14"
      "handshake_body body 769 address [0x63, 0xDD] (ucast ns)"
      "length address \<le> 765 \<Longrightarrow> length body \<le> 776"
    by (rule handshake_wire_Some) blast
  have ns: "ucast ns \<in> {1, 2, 3 :: u32} \<longleftrightarrow> ns \<in> {1, 2, 3}"
    using assms(2) by (auto simp: word_unat_eq_iff unsigned_ucast_eq take_bit_eq_mod)
  have v: "varint (varint_encode (length body)) (word_of_nat (length body))"
    using b(2) by (intro varint_encode_varint) simp
  show ?thesis
  proof
    assume "starts_with_handshake 776 765 (w @ extra)"
    then obtain e flen body' rest protov addr port ns' where
      d: "w @ extra = e @ body' @ rest" "varint e flen" "length addr \<le> 765"
        "handshake_body body' protov addr port ns'" "ns' \<in> {1, 2, 3}"
      unfolding starts_with_handshake_def by blast
    from d(1) b(1) have "varint_encode (length body) @ body @ extra = e @ body' @ rest" by simp
    with varint_unique [OF v d(2)] have "body @ extra = body' @ rest" by blast
    from handshake_body_unique [OF b(3) d(4) this] d(3,5) ns
    show "length address \<le> 765 \<and> ns \<in> {1, 2, 3}" by simp
  next
    assume a: "length address \<le> 765 \<and> ns \<in> {1, 2, 3}"
    show "starts_with_handshake 776 765 (w @ extra)"
    proof (rule starts_with_handshakeI [OF _ v])
      show "w @ extra = varint_encode (length body) @ body @ extra" using b(1) by simp
      show "unat (word_of_nat (length body) :: u32) = length body"
        using b(2) by (simp add: unat_of_nat)
    qed (use a b ns in simp_all)
  qed
qed

lemma wire_body:
  assumes "handshake_wire address ns = Some w"
  defines "body \<equiv> [0x00] @ [0x81, 0x06] @ varint_encode (length address) @ address @ [0x63, 0xDD] @ [ns]"
  shows "w = (if length body < 128 then [word_of_nat (length body)]
     else [word_of_nat (length body mod 2 ^ 7) OR 0x80, word_of_nat (length body div 2 ^ 7)]) @ body"
    and "length body < 2 ^ 15"
  using assms(1) by (auto simp: body_def handshake_wire_def Let_def address_len_bytes_eq split: if_splits)

text \<open>A next state of 128 or more has no last byte, so no frame ends where the length says.\<close>

lemma body_open_end:
  assumes "128 \<le> unat ns" and "length address < 16376"
  shows "\<not> handshake_body ([0x00] @ [0x81, 0x06] @ varint_encode (length address) @ address @ [0x63, 0xDD] @ [ns])
    protov addr port ns'"
proof
  assume "handshake_body ([0x00] @ [0x81, 0x06] @ varint_encode (length address) @ address @ [0x63, 0xDD] @ [ns])
    protov addr port ns'"
  then obtain e1 e2 e3 l e4 where
    f: "[0x00] @ [0x81, 0x06] @ varint_encode (length address) @ address @ [0x63, 0xDD] @ [ns] =
        e1 @ e2 @ e3 @ addr @ port @ e4"
      "varint e1 0" "varint e2 protov" "varint e3 l" "unat l = length addr" "length port = 2" "varint e4 ns'"
    by (rule handshake_bodyE)
  have v: "varint [0] 0" "varint [0x81, 0x06] 769"
    by (simp_all add: varint_def continued_def segment_def)
  have vl: "varint (varint_encode (length address)) (word_of_nat (length address))"
    using assms(2) by (intro varint_encode_varint) simp
  from varint_unique [OF v(1) f(2) f(1)]
  have 1: "[0x81, 0x06] @ varint_encode (length address) @ address @ [0x63, 0xDD] @ [ns] = e2 @ e3 @ addr @ port @ e4"
    by blast
  from varint_unique [OF v(2) f(3) 1]
  have 2: "varint_encode (length address) @ address @ [0x63, 0xDD] @ [ns] = e3 @ addr @ port @ e4" by blast
  from varint_unique [OF vl f(4) 2] have "address @ [0x63, 0xDD] @ [ns] = addr @ port @ e4" "length address = length addr"
    using assms(2) f(5) by (auto simp: unat_of_nat)
  with f(6) have "e4 = [ns]" by (auto simp: append_eq_append_conv numeral_2_eq_2 length_Suc_conv)
  with f(7) have "\<not> continued ns" by (auto simp: varint_def split: if_splits)
  with assms(1) show False by (simp add: continued_iff)
qed

lemma wire_open_end:
  assumes "handshake_wire address ns = Some w" and "128 \<le> unat ns" and "length address < 16376"
  shows "\<not> starts_with_handshake 776 765 (w @ extra)"
proof
  let ?body = "[0x00] @ [0x81, 0x06] @ varint_encode (length address) @ address @ [0x63, 0xDD] @ [ns]"
  assume "starts_with_handshake 776 765 (w @ extra)"
  then obtain e flen body' rest protov addr port ns' where
    d: "w @ extra = e @ body' @ rest" "varint e flen" "unat flen = length body'"
      "handshake_body body' protov addr port ns'"
    unfolding starts_with_handshake_def by blast
  have "length (varint_encode (length address)) \<le> 2"
    using assms(3) by (intro varint_encode_length) simp_all
  with assms(3) have len: "length ?body < 2 ^ 14" by simp
  have "w = varint_encode (length ?body) @ ?body"
    using wire_body(1) [OF assms(1)] unfolding varint_encode_two [OF len] .
  with d(1) have eq: "varint_encode (length ?body) @ ?body @ extra = e @ body' @ rest"
    by (simp only: append_assoc)
  have "varint (varint_encode (length ?body)) (word_of_nat (length ?body))"
    using len by (intro varint_encode_varint) simp
  from varint_unique [OF this d(2) eq] have u: "word_of_nat (length ?body) = flen" "?body @ extra = body' @ rest" by blast+
  have "unat (word_of_nat k :: u32) = k" if "k < 2 ^ 14" for k using that by (simp add: unat_of_nat)
  from this [OF len] d(3) have "length body' = length ?body" unfolding u(1) by metis
  with u(2) have "body' = ?body" by (metis append_eq_append_conv)
  with d(4) body_open_end [OF assms(2,3)] show False by metis
qed

text \<open>
  A body of 2 to the 14 bytes or more: the builder writes no third length byte, so the length
  runs on into the packet ID and the body starts at the protocol version.
\<close>

lemma wire_overlong:
  assumes "handshake_wire address ns = Some w" and "16376 \<le> length address"
  shows "\<not> starts_with_handshake 776 765 (w @ extra)"
proof
  let ?body = "[0x00] @ [0x81, 0x06] @ varint_encode (length address) @ address @ [0x63, 0xDD] @ [ns]"
  assume "starts_with_handshake 776 765 (w @ extra)"
  then obtain e flen body' rest protov addr port ns' where
    d: "w @ extra = e @ body' @ rest" "varint e flen" "handshake_body body' protov addr port ns'"
    unfolding starts_with_handshake_def by blast
  have "varint_encode n \<noteq> []" for n by (subst varint_encode.simps) simp
  then have "2 \<le> length (varint_encode (length address))"
    using assms(2) by (simp add: varint_encode_large Suc_le_eq)
  with assms(2) have big: "2 ^ 14 \<le> length ?body" by simp
  define n where "n = length ?body"
  let ?lo = "word_of_nat (n mod 2 ^ 7) OR 0x80 :: u8" and ?hi = "word_of_nat (n div 2 ^ 7) :: u8"
  have n: "16384 \<le> n" "n < 32768" using big wire_body(2) [OF assms(1)] by (simp_all add: n_def)
  then have "\<not> n < 128" by linarith
  with wire_body(1) [OF assms(1), folded n_def] have w: "w = [?lo, ?hi] @ ?body" by (simp only: if_False)
  from n have h: "128 \<le> n div 2 ^ 7" "n div 2 ^ 7 < 256" by (simp_all add: less_eq_div_iff_mult_less_eq less_mult_imp_div_less)
  then have "unat ?hi = n div 2 ^ 7" by (simp add: unat_of_nat)
  with h have "continued ?hi" by (simp add: continued_iff)
  moreover have "continued ?lo" using continued_byte(1) [of "n mod 2 ^ 7"] by simp
  ultimately have "varint [?lo, ?hi, 0] (varint_value [?lo, ?hi, 0])"
    by (simp add: varint_def continued_iff)
  moreover have "[?lo, ?hi, 0] @ [0x81, 0x06] @ varint_encode (length address) @ address @ [0x63, 0xDD] @ [ns] @ extra =
      e @ body' @ rest"
    using d(1) w by (simp only: append_Cons append_Nil append_assoc)
  ultimately have "[0x81, 0x06] @ varint_encode (length address) @ address @ [0x63, 0xDD] @ [ns] @ extra = body' @ rest"
    using varint_unique [OF _ d(2)] by blast
  moreover from d(3) obtain e1 more where "body' = e1 @ more" "varint e1 0"
    by (auto elim: handshake_bodyE)
  moreover have "varint [0x81, 0x06] 769" by (simp add: varint_def continued_def segment_def)
  ultimately have "(769 :: u32) = 0" using varint_unique [of "[0x81, 0x06]" 769 e1 0] by fastforce
  then show False by simp
qed

lemma starts_with_handshake_wire:
  assumes "handshake_wire address ns = Some w"
  shows "starts_with_handshake 776 765 (w @ extra) \<longleftrightarrow> length address \<le> 765 \<and> ns \<in> {1, 2, 3}"
proof (cases "length address < 16376")
  case len: True
  show ?thesis
  proof (cases "unat ns < 128")
    case True
    then show ?thesis by (rule starts_with_wire_terminated [OF assms _ len])
  next
    case False
    then have "ns \<notin> {1, 2, 3}" by auto
    with wire_open_end [OF assms _ len] False show ?thesis by simp
  qed
next
  case False
  with wire_overlong [OF assms] show ?thesis by simp
qed

section \<open>Frames have one length\<close>

lemma frame_truncated:
  assumes "varint e flen" and "unat flen = length body" and "k < length e + length body"
  shows "\<not> starts_with_handshake m a (take k (e @ body @ rest))"
proof
  assume "starts_with_handshake m a (take k (e @ body @ rest))"
  then obtain e' flen' body' rest' where
    d: "take k (e @ body @ rest) = e' @ body' @ rest'" "varint e' flen'" "unat flen' = length body'"
    unfolding starts_with_handshake_def by blast
  have "e @ body @ rest = take k (e @ body @ rest) @ drop k (e @ body @ rest)"
    by (rule append_take_drop_id [symmetric])
  also have "\<dots> = e' @ body' @ rest' @ drop k (e @ body @ rest)" using d(1) by simp
  finally have "e = e' \<and> flen = flen'"
    using varint_unique [OF assms(1) d(2)] by blast
  moreover have "length e' + length body' \<le> k"
    using arg_cong [OF d(1), of length] by simp
  ultimately show False using assms(2,3) d(3) by simp
qed

lemma handshake_threshold:
  assumes "starts_with_handshake m a (take len payload)"
  shows "\<exists>n \<le> len. \<forall>k \<le> length payload. starts_with_handshake m a (take k payload) \<longleftrightarrow> n \<le> k"
proof -
  from assms obtain e flen body rest protov addr port ns where
    d: "take len payload = e @ body @ rest" "varint e flen" "unat flen = length body"
      "length body \<le> m" "length addr \<le> a" "handshake_body body protov addr port ns" "ns \<in> {1, 2, 3}"
    unfolding starts_with_handshake_def by blast
  let ?n = "length e + length body" and ?rest = "rest @ drop len payload"
  have payload: "payload = e @ body @ ?rest"
    using append_take_drop_id [of len payload] unfolding d(1) by simp
  have "starts_with_handshake m a (take k payload)" if "?n \<le> k" for k
  proof (rule starts_with_handshakeI)
    have "take k payload = (e @ body) @ take (k - ?n) ?rest"
      using that by (subst payload) simp
    then show "take k payload = e @ body @ take (k - ?n) ?rest" by simp
  qed (use d in blast)+
  moreover have "\<not> starts_with_handshake m a (take k payload)" if "k < ?n" for k
    by (subst payload, rule frame_truncated [OF d(2,3) that])
  moreover have "?n \<le> len" using arg_cong [OF d(1), of length] by simp
  ultimately show ?thesis by (metis not_le)
qed

section \<open>Properties\<close>

lemma localhost_wire: "handshake_wire [0x6C, 0x6F, 0x63, 0x61, 0x6C, 0x68, 0x6F, 0x73, 0x74] 2 = Some localhost_login_wire"
  by (simp add: handshake_wire_def localhost_login_wire_def address_len_bytes_eq varint_encode_small)

lemma domain_wire:
  "handshake_wire [0x70, 0x6C, 0x61, 0x79, 0x2E, 0x65, 0x78, 0x61, 0x6D, 0x70, 0x6C, 0x65, 0x2E, 0x63, 0x6F, 0x6D] 1
    = Some domain_status_wire"
  by (simp add: handshake_wire_def domain_status_wire_def address_len_bytes_eq varint_encode_small)

lemma localhost_wire_length: "length localhost_login_wire = 17"
  by (simp add: localhost_login_wire_def)

lemma localhost_wire_accepted: "starts_with_handshake 776 765 (localhost_login_wire @ extra)"
  by (simp add: starts_with_handshake_wire [OF localhost_wire])

lemma localhost_wire_ctx:
  "packet_ctx (fake_packet_ctx 4096 (localhost_login_wire @ [1, 0])) (localhost_login_wire @ [1, 0])"
  by (rule fake_packet_ctx) (simp_all add: localhost_login_wire_def headroom_def)

text \<open>
  C7: \<open>check_handshake\<close> decides the wire format: it returns \<open>Ok\<close> exactly when the payload
  starts with a frame of at most 776 bytes that holds a handshake with an address of at most
  765 bytes and next state 1, 2 or 3, and otherwise it returns the drop action.
\<close>

theorem check_handshake_decides:
  assumes "packet_ctx ctx bs" and "off \<le> 2000" and "off + len \<le> length bs"
  shows "check_handshake ctx off len =
    (if starts_with_handshake 776 765 (take len (drop off bs)) then Inr () else Inl (Throw XDP_DROP))"
  by (rule check_handshake_eq [OF assms])

theorem check_handshake_decides_witness:
  "check_handshake (fake_packet_ctx 4096 (localhost_login_wire @ [1, 0])) 0 19 = Inr ()"
  using check_handshake_decides [OF localhost_wire_ctx, of 0 19] localhost_wire_accepted [of "[1, 0]"]
  by (simp add: localhost_login_wire_def)

text \<open>
  C17: whatever length the headers declared and whatever the packet holds, the check reads no
  byte outside the packet, overflows no sum, and its only error is the drop action.
\<close>

theorem check_handshake_never_faults:
  assumes "packet_ctx ctx bs" and "off \<le> 2000"
  shows "no_fault (check_handshake ctx off len) \<and>
    (check_handshake ctx off len = Inr () \<or> check_handshake ctx off len = Inl (Throw XDP_DROP))"
  using check_handshake_drops [OF assms, of len]
  by (auto simp: drops_or_ok_def elim!: no_faultE dest: throws_onlyD)

theorem check_handshake_never_faults_witness:
  "no_fault (check_handshake (fake_packet_ctx 4096 (localhost_login_wire @ [1, 0])) 7 (2 ^ 63))"
  using check_handshake_never_faults [OF localhost_wire_ctx, of 7] by simp

text \<open>
  C18: an accepted payload has one frame length: offered any other length from the same
  offset, the check accepts exactly when the whole frame is inside it. Truncating a handshake
  anywhere makes it a drop; data coalesced behind it changes nothing.
\<close>

theorem check_handshake_threshold:
  assumes "packet_ctx ctx bs" and "off \<le> 2000" and "off + len \<le> length bs"
    and "check_handshake ctx off len = Inr ()"
  shows "\<exists>n \<le> len. \<forall>k. off + k \<le> length bs \<longrightarrow> (check_handshake ctx off k = Inr () \<longleftrightarrow> n \<le> k)"
proof -
  obtain n where "n \<le> len"
    "\<forall>k \<le> length (drop off bs). starts_with_handshake 776 765 (take k (drop off bs)) \<longleftrightarrow> n \<le> k"
    using handshake_threshold [OF check_handshake_sound [OF assms]] by blast
  then show ?thesis using check_handshake_eq [OF assms(1,2)] by (intro exI [of _ n]) auto
qed

theorem check_handshake_threshold_witness:
  "\<exists>n \<le> (17 :: nat).
     (check_handshake (fake_packet_ctx 4096 (localhost_login_wire @ [1, 0])) 0 16 = Inr () \<longleftrightarrow> n \<le> 16) \<and>
     (check_handshake (fake_packet_ctx 4096 (localhost_login_wire @ [1, 0])) 0 19 = Inr () \<longleftrightarrow> n \<le> 19)"
proof -
  have "check_handshake (fake_packet_ctx 4096 (localhost_login_wire @ [1, 0])) 0 17 = Inr ()"
    using check_handshake_eq [OF localhost_wire_ctx, of 0 17] localhost_wire_accepted [of "[]"]
    by (simp add: localhost_wire_length)
  from check_handshake_threshold [OF localhost_wire_ctx _ _ this]
  obtain n where "n \<le> 17" and n: "0 + k \<le> 19 \<Longrightarrow>
      check_handshake (fake_packet_ctx 4096 (localhost_login_wire @ [1, 0])) 0 k = Inr () \<longleftrightarrow> n \<le> k" for k
    by (auto simp: localhost_wire_length)
  with n [of 16] n [of 19] show ?thesis by (intro exI [of _ n]) simp
qed

text \<open>
  C32: every packet the test suite's builder makes, with any data behind it, is accepted
  exactly when its address has at most 765 bytes and its next state is 1, 2 or 3. That includes
  the packets whose last byte leaves the next state open (128 and above), and those whose body is
  too long for the two length bytes the builder writes.
\<close>

theorem check_handshake_builder:
  assumes "handshake_wire address ns = Some w"
    and "packet_ctx ctx (headers @ w @ extra)" and "length headers \<le> 2000"
  shows "check_handshake ctx (length headers) (length (w @ extra)) =
    (if length address \<le> 765 \<and> ns \<in> {1, 2, 3} then Inr () else Inl (Throw XDP_DROP))"
  using check_handshake_eq [OF assms(2,3), of "length (w @ extra)"]
    starts_with_handshake_wire [OF assms(1), of extra] by simp

theorem check_handshake_builder_witness:
  "check_handshake (fake_packet_ctx 4096 (localhost_login_wire @ [1, 0])) 0 19 = Inr () \<and>
     length localhost_login_wire = 17"
  using check_handshake_builder [OF localhost_wire, of _ "[]" "[1, 0]"] localhost_wire_ctx
  by (simp add: localhost_wire_length)

end
