(* ===== verification/Flow_Table.thy ===== *)
theory Flow_Table
  imports Sniffer_Prelude
begin

text \<open>
  The map \<open>ALLOWED_FLOWS\<close> of \<open>mc-sniffer-ebpf/src/main.rs\<close>. Its type \<open>LruHashMap\<close> is a kernel
  map behind the crate \<open>aya-ebpf\<close>, which is not part of the repository, so it is a parameter: a
  record of the three operations \<open>verdict\<close> calls, on a state type of its own. What the code
  relies on is the hypothesis \<open>lru_laws\<close>, the documented behaviour of an LRU hash map: a lookup
  finds exactly the stored keys, a removal removes its key only, and an insertion that returns
  \<open>Ok\<close> stores its key. An insertion may evict any other keys, and may fail. \<open>lru_room\<close> is what
  can be relied on below a number of entries \<open>n\<close>: up to there nothing is evicted and no insertion
  fails. The program declares 1024 entries, but the kernel may start evicting earlier (the
  comment on \<open>ALLOWED_FLOWS\<close>), so \<open>n\<close> is a parameter. The locales \<open>flow_table\<close> and
  \<open>roomy_flow_table\<close> are these interfaces; a list of at most 1024 keys, most recently used
  first, interprets both, with \<open>n\<close> the declared number of entries.
\<close>

section \<open>Keys\<close>

record flow_key =
  fk_source_address :: u32
  fk_destination_address :: u32
  fk_source_port :: u16
  fk_destination_port :: u16

section \<open>The operations the program calls\<close>

record ('k, 'm) lru_map =
  lru_get_ptr :: "'m \<Rightarrow> 'k \<Rightarrow> u8 option \<times> 'm"  \<comment> \<open>a lookup counts as a use\<close>
  lru_insert :: "'m \<Rightarrow> 'k \<Rightarrow> u8 \<Rightarrow> nat \<Rightarrow> (int + unit) \<times> 'm"
  lru_remove :: "'m \<Rightarrow> 'k \<Rightarrow> (int + unit) \<times> 'm"

definition lru_laws :: "('k, 'm) lru_map \<Rightarrow> ('m \<Rightarrow> 'k set) \<Rightarrow> bool" where
  "lru_laws ops keys \<longleftrightarrow>
     (\<forall>m k. (fst (lru_get_ptr ops m k) \<noteq> None \<longleftrightarrow> k \<in> keys m) \<and>
            keys (snd (lru_get_ptr ops m k)) = keys m) \<and>
     (\<forall>m k. keys (snd (lru_remove ops m k)) = keys m - {k}) \<and>
     (\<forall>m k v fl. keys (snd (lru_insert ops m k v fl)) \<subseteq> insert k (keys m) \<and>
            (isl (fst (lru_insert ops m k v fl)) \<or> k \<in> keys (snd (lru_insert ops m k v fl))))"

definition fits :: "nat \<Rightarrow> 'k set \<Rightarrow> 'k \<Rightarrow> bool" where
  \<comment> \<open>a map of the keys \<open>S\<close> has room for \<open>k\<close> among \<open>n\<close> entries\<close>
  "fits n S k \<longleftrightarrow> finite S \<and> card (insert k S) \<le> n"

definition lru_room :: "('k, 'm) lru_map \<Rightarrow> ('m \<Rightarrow> 'k set) \<Rightarrow> nat \<Rightarrow> bool" where
  \<comment> \<open>up to \<open>n\<close> entries an insertion stores its key and evicts none\<close>
  "lru_room ops keys n \<longleftrightarrow>
     (\<forall>m k v fl. fits n (keys m) k \<longrightarrow> keys (snd (lru_insert ops m k v fl)) = insert k (keys m))"

lemma fits_mono: "fits n S k \<Longrightarrow> S' \<subseteq> S \<Longrightarrow> fits n S' k"
  unfolding fits_def by (meson card_mono finite_insert finite_subset insert_mono order_trans)

locale flow_table =
  fixes ops :: "('k, 'm) lru_map" and keys :: "'m \<Rightarrow> 'k set"
  assumes laws: "lru_laws ops keys"
begin

lemma get_ptr:
  "fst (lru_get_ptr ops m k) \<noteq> None \<longleftrightarrow> k \<in> keys m"
  "keys (snd (lru_get_ptr ops m k)) = keys m"
  using laws by (simp_all add: lru_laws_def)

lemma remove: "keys (snd (lru_remove ops m k)) = keys m - {k}"
  using laws by (simp add: lru_laws_def)

lemma insert_subset: "keys (snd (lru_insert ops m k v fl)) \<subseteq> insert k (keys m)"
  using laws by (simp add: lru_laws_def)

lemma insert_ok: "lru_insert ops m k v fl = (Inr u, m') \<Longrightarrow> k \<in> keys m'"
  using laws unfolding lru_laws_def by (metis fst_conv snd_conv isl_def sum.distinct(1))

end

locale roomy_flow_table = flow_table +
  fixes n :: nat
  assumes room: "lru_room ops keys n"
begin

lemma insert_eq: "fits n (keys m) k \<Longrightarrow> keys (snd (lru_insert ops m k v fl)) = insert k (keys m)"
  using room by (simp add: lru_room_def)

end

lemma roomy_tableI: "flow_table ops keys \<Longrightarrow> lru_room ops keys n \<Longrightarrow> roomy_flow_table ops keys n"
  by (intro roomy_flow_table.intro roomy_flow_table_axioms.intro)

section \<open>A least-recently-used list\<close>

definition max_entries :: nat where
  "max_entries = 1024"

definition lru_list :: "('k, 'k list) lru_map" where
  "lru_list = \<lparr>
     lru_get_ptr = (\<lambda>m k. if k \<in> set m then (Some 0, k # removeAll k m) else (None, m)),
     lru_insert = (\<lambda>m k v fl. (Inr (), take max_entries (k # remdups (removeAll k m)))),
     lru_remove = (\<lambda>m k. if k \<in> set m then (Inr (), removeAll k m) else (Inl (- 2), m)) \<rparr>"

lemma lru_list_room:
  assumes "fits max_entries (set m) k"
  shows "set (snd (lru_insert lru_list m k v fl)) = insert k (set m)"
proof -
  have "length (k # remdups (removeAll k m)) = card (set (k # remdups (removeAll k m)))"
    by (rule distinct_card [symmetric]) simp
  also have "set (k # remdups (removeAll k m)) = insert k (set m)" by auto
  finally have "length (k # remdups (removeAll k m)) \<le> max_entries"
    using assms by (simp add: fits_def)
  then show ?thesis by (auto simp: lru_list_def take_all)
qed

interpretation lru: roomy_flow_table lru_list set max_entries
proof unfold_locales
  show "lru_laws lru_list set"
    by (auto simp: lru_laws_def lru_list_def max_entries_def dest: in_set_takeD)
  show "lru_room lru_list set max_entries"
    by (simp add: lru_room_def lru_list_room)
qed

text \<open>Its size never exceeds the capacity the program declares.\<close>

lemma lru_list_bounded: "length (snd (lru_insert lru_list m k v fl)) \<le> max_entries"
  by (simp add: lru_list_def)

end
