(* ===== verification/Verdict.thy ===== *)
theory Verdict
  imports Ebpf_Headers Minecraft Flow_Table
begin

text \<open>
  The XDP program, \<open>src/sniffer/mc-sniffer-ebpf/src/main.rs\<close>: \<open>verdict\<close> and its entry point
  \<open>mc_sniffer\<close>. The program threads the state \<open>m\<close> of the map \<open>ALLOWED_FLOWS\<close>; the log lines
  it emits are collected in order. \<open>verdict\<close> has no error of its own: the error type is
  \<open>unit\<close> and no \<open>Throw\<close> is ever returned.
\<close>

section \<open>The program\<close>

definition MINECRAFT_PORT :: u16 where
  "MINECRAFT_PORT = 25565"

datatype log_event =
    Packet_received
  | Ethernet_check string
  | Parsed_ipv4 u32 u16 u32 u16 usize
  | Ipv4_check string
  | Skipping u32 u16
  | Parsed_tcp u16 u16
  | Tcp_check string
  | Failed_to_remember u32 u16
  | Valid_handshake u32 u16
  | Dropping u32 u16

type_synonym 'm result = "(xdp_action \<times> log_event list \<times> 'm, unit) outcome"

definition judge ::
  "(flow_key, 'm) lru_map \<Rightarrow> xdp_context \<Rightarrow> tcp_packet \<Rightarrow> flow_key \<Rightarrow> log_event list \<Rightarrow> 'm \<Rightarrow> 'm result" where
  \<comment> \<open>the expression \<open>let action = if .. else ..\<close>\<close>
  "judge ops ctx tcp flow logs m =
     (if tp_payload_len tcp = 0 then Inr (XDP_PASS, logs, m) else
      case lru_get_ptr ops m flow of (found, m) \<Rightarrow>
      if found \<noteq> None then Inr (XDP_PASS, logs, m) else
      match_result (check_handshake ctx (tp_payload_offset tcp) (tp_payload_len tcp))
        (\<lambda>_. Inr (XDP_DROP, logs @ [Dropping (fk_source_address flow) (fk_source_port flow)], m))
        (\<lambda>_. case lru_insert ops m flow 0 0 of (inserted, m) \<Rightarrow>
           let logs = (if isl inserted
                 then logs @ [Failed_to_remember (fk_source_address flow) (fk_source_port flow)]
                 else logs)
           in Inr (XDP_PASS, logs @ [Valid_handshake (fk_source_address flow) (fk_source_port flow)], m)))"

definition verdict ::
  "network_types \<Rightarrow> (flow_key, 'm) lru_map \<Rightarrow> xdp_context \<Rightarrow> 'm \<Rightarrow> 'm result" where
  "verdict N ops ctx m =
     (let logs = [Packet_received] in
      match_result (check_header N ctx)
        (\<lambda>action. Inr (action, logs @ [Ethernet_check (format_action action)], m)) (\<lambda>_.
      match_result (ipv4_try_parse N ctx)
        (\<lambda>action. Inr (action, logs @ [Ipv4_check (format_action action)], m)) (\<lambda>ipv4.
      let logs = logs @ [Parsed_ipv4 (ip4_source_address ipv4) (ip4_source_port ipv4)
            (ip4_destination_address ipv4) (ip4_destination_port ipv4) (ip4_total_size ipv4)] in
      if ip4_destination_port ipv4 \<noteq> MINECRAFT_PORT
      then Inr (XDP_PASS, logs @ [Skipping (ip4_source_address ipv4) (ip4_source_port ipv4)], m) else
      match_result (tcp_try_parse N ctx)
        (\<lambda>action. Inr (action, logs @ [Tcp_check (format_action action)], m)) (\<lambda>tcp.
      let logs = logs @ [Parsed_tcp (tp_source_port tcp) (tp_destination_port tcp)];
          flow = \<lparr>fk_source_address = ip4_source_address ipv4,
                  fk_destination_address = ip4_destination_address ipv4,
                  fk_source_port = ip4_source_port ipv4,
                  fk_destination_port = ip4_destination_port ipv4\<rparr>;
          m = (if is_syn (tp_flags tcp) then snd (lru_remove ops m flow) else m) in
      and_then (judge ops ctx tcp flow logs m) (\<lambda>(action, logs, m).
      let m = (if is_fin (tp_flags tcp) \<or> is_rst (tp_flags tcp)
               then snd (lru_remove ops m flow) else m)
      in Inr (action, logs, m))))))"

definition mc_sniffer ::
  "network_types \<Rightarrow> (flow_key, 'm) lru_map \<Rightarrow> xdp_context \<Rightarrow> 'm \<Rightarrow> 'm result" where
  "mc_sniffer N ops ctx m = verdict N ops ctx m"

section \<open>What the program promises: the abstract filter\<close>

record flow_segment =
  sg_flow :: flow_key
  sg_syn :: bool
  sg_teardown :: bool  \<comment> \<open>FIN or RST\<close>
  sg_payload :: bytes

abbreviation is_handshake :: "bytes \<Rightarrow> bool" where
  "is_handshake \<equiv> starts_with_handshake 776 765"

definition segment_of_frame :: "network_types \<Rightarrow> bytes \<Rightarrow> flow_segment" where
  "segment_of_frame N bs = (let ipv4 = ipv4_of_frame bs; tcp = tcp_of_frame N bs in
     \<lparr>sg_flow = \<lparr>fk_source_address = ip4_source_address ipv4,
                 fk_destination_address = ip4_destination_address ipv4,
                 fk_source_port = ip4_source_port ipv4,
                 fk_destination_port = ip4_destination_port ipv4\<rparr>,
      sg_syn = is_syn (tp_flags tcp),
      sg_teardown = (is_fin (tp_flags tcp) \<or> is_rst (tp_flags tcp)),
      sg_payload = take (tp_payload_len tcp) (drop (tp_payload_offset tcp) bs)\<rparr>)"

definition classify :: "network_types \<Rightarrow> bytes \<Rightarrow> xdp_action + flow_segment" where
  \<comment> \<open>frames the filter has an action for whatever the table holds, and segments to port 25565\<close>
  "classify N bs =
     (if length bs < 14 then Inl XDP_ABORTED
      else if u16_from_be_bytes [bs ! 12, bs ! 13] \<noteq> 0x0800 then Inl XDP_PASS
      else if \<not> ipv4_acceptable bs then Inl (ipv4_reject_action N bs)
      else if ip4_destination_port (ipv4_of_frame bs) \<noteq> 25565 then Inl XDP_PASS
      else if \<not> tcp_acceptable bs then Inl XDP_DROP
      else Inr (segment_of_frame N bs))"

definition after_syn :: "flow_segment \<Rightarrow> flow_key set \<Rightarrow> flow_key set" where
  "after_syn s S = (if sg_syn s then S - {sg_flow s} else S)"

definition after_teardown :: "flow_segment \<Rightarrow> flow_key set \<Rightarrow> flow_key set" where
  "after_teardown s S = (if sg_teardown s then S - {sg_flow s} else S)"

text \<open>
  One segment against the set of open flows. With \<open>exact\<close> false, admitting a flow may close
  others or fail to open it, as the kernel's map may; with \<open>exact\<close> true it opens exactly it.
\<close>

inductive filter_step :: "bool \<Rightarrow> flow_key set \<Rightarrow> flow_segment \<Rightarrow> xdp_action \<Rightarrow> flow_key set \<Rightarrow> bool"
  for exact :: bool where
  bare: "sg_payload s = [] \<Longrightarrow> filter_step exact S s XDP_PASS (after_teardown s (after_syn s S))"
| known: "sg_payload s \<noteq> [] \<Longrightarrow> sg_flow s \<in> after_syn s S \<Longrightarrow>
    filter_step exact S s XDP_PASS (after_teardown s (after_syn s S))"
| admit: "sg_payload s \<noteq> [] \<Longrightarrow> sg_flow s \<notin> after_syn s S \<Longrightarrow> is_handshake (sg_payload s) \<Longrightarrow>
    S' \<subseteq> insert (sg_flow s) (after_syn s S) \<Longrightarrow>
    (exact \<Longrightarrow> S' = insert (sg_flow s) (after_syn s S)) \<Longrightarrow>
    filter_step exact S s XDP_PASS (after_teardown s S')"
| refuse: "sg_payload s \<noteq> [] \<Longrightarrow> sg_flow s \<notin> after_syn s S \<Longrightarrow> \<not> is_handshake (sg_payload s) \<Longrightarrow>
    filter_step exact S s XDP_DROP (after_teardown s (after_syn s S))"

inductive_cases filter_stepE: "filter_step exact S s a S'"

lemma filter_step_action:
  "filter_step exact S s a S' \<Longrightarrow>
    a = (if sg_payload s = [] \<or> sg_flow s \<in> after_syn s S \<or> is_handshake (sg_payload s)
         then XDP_PASS else XDP_DROP)"
  by (erule filter_stepE) simp_all

lemma is_handshake_Nil [simp]: "\<not> is_handshake []"
  using starts_with_handshake_nonempty by blast

lemma filter_step_table:
  "filter_step True S s a S' \<Longrightarrow>
    S' = after_teardown s
      (if is_handshake (sg_payload s) then insert (sg_flow s) (after_syn s S) else after_syn s S)"
  by (erule filter_stepE) (simp_all add: insert_absorb)

section \<open>The program refines it\<close>

text \<open>The lines about a frame up to the judgement, as a function of its bytes.\<close>

definition frame_report :: "network_types \<Rightarrow> bytes \<Rightarrow> log_event list" where
  "frame_report N bs = (let ipv4 = ipv4_of_frame bs in
     Packet_received #
     (if length bs < 14 then [Ethernet_check ''ABORTED'']
      else if u16_from_be_bytes [bs ! 12, bs ! 13] \<noteq> 0x0800 then [Ethernet_check ''PASS'']
      else if \<not> ipv4_acceptable bs then [Ipv4_check (format_action (ipv4_reject_action N bs))]
      else Parsed_ipv4 (ip4_source_address ipv4) (ip4_source_port ipv4)
          (ip4_destination_address ipv4) (ip4_destination_port ipv4) (frame_tot_len bs) #
        (if ip4_destination_port ipv4 \<noteq> 25565 then [Skipping (ip4_source_address ipv4) (ip4_source_port ipv4)]
         else if \<not> tcp_acceptable bs then [Tcp_check ''DROP'']
         else [Parsed_tcp (ip4_source_port ipv4) 25565])))"

lemma unjudged_report:
  assumes N: "header_layout N" and p: "packet_ctx ctx bs" and c: "classify N bs = Inl a"
  shows "verdict N ops ctx m = Inr (a, frame_report N bs, m)"
proof (cases "length bs < 14 \<or> u16_from_be_bytes [bs ! 12, bs ! 13] \<noteq> 0x0800")
  case True
  with c show ?thesis
    by (auto simp: classify_def verdict_def check_header_eq [OF N p] frame_report_def Let_def split: if_splits)
next
  case eth: False
  then have e: "check_header N ctx = Inr ()"
    by (simp add: check_header_eq [OF N p])
  show ?thesis
  proof (cases "ipv4_acceptable bs")
    case False
    with c e eth show ?thesis
      by (simp add: classify_def verdict_def ipv4_try_parse_cases [OF N p] frame_report_def Let_def)
  next
    case True
    with c eth have "ip4_destination_port (ipv4_of_frame bs) \<noteq> 25565 \<and> a = XDP_PASS \<or>
        ip4_destination_port (ipv4_of_frame bs) = 25565 \<and> a = XDP_DROP \<and> \<not> tcp_acceptable bs"
      by (auto simp: classify_def split: if_splits)
    with e True eth show ?thesis
      by (auto simp: verdict_def ipv4_try_parse_cases [OF N p] tcp_try_parse_drop [OF N p True]
          MINECRAFT_PORT_def frame_report_def ipv4_of_frame_def Let_def)
  qed
qed

lemma verdict_unjudged:
  assumes "header_layout N" and "packet_ctx ctx bs" and "classify N bs = Inl a"
  shows "\<exists>logs. verdict N ops ctx m = Inr (a, logs, m)"
  using unjudged_report [OF assms, of ops m] by blast

definition frame_logs :: "network_types \<Rightarrow> bytes \<Rightarrow> log_event list" where
  "frame_logs N bs = (let ipv4 = ipv4_of_frame bs; tcp = tcp_of_frame N bs in
     [Packet_received, Parsed_ipv4 (ip4_source_address ipv4) (ip4_source_port ipv4)
        (ip4_destination_address ipv4) (ip4_destination_port ipv4) (ip4_total_size ipv4),
      Parsed_tcp (tp_source_port tcp) (tp_destination_port tcp)])"

lemma verdict_judged:
  assumes N: "header_layout N" and p: "packet_ctx ctx bs" and c: "classify N bs = Inr s"
  shows "verdict N ops ctx m =
    and_then (judge ops ctx (tcp_of_frame N bs) (sg_flow s) (frame_logs N bs)
      (if sg_syn s then snd (lru_remove ops m (sg_flow s)) else m))
    (\<lambda>(a, logs, m). Inr (a, logs, if sg_teardown s then snd (lru_remove ops m (sg_flow s)) else m))"
    and "ipv4_acceptable bs" and "tcp_acceptable bs" and "s = segment_of_frame N bs"
proof -
  from c have i: "14 \<le> length bs" "u16_from_be_bytes [bs ! 12, bs ! 13] = 0x0800" "ipv4_acceptable bs"
    "ip4_destination_port (ipv4_of_frame bs) = 25565" "tcp_acceptable bs" "s = segment_of_frame N bs"
    by (auto simp: classify_def split: if_splits)
  then show "ipv4_acceptable bs" and "tcp_acceptable bs" and "s = segment_of_frame N bs" by blast+
  have e: "check_header N ctx = Inr ()"
    using i by (simp add: check_header_eq [OF N p])
  have ip: "ipv4_try_parse N ctx = Inr (ipv4_of_frame bs)" and tcp: "tcp_try_parse N ctx = Inr (tcp_of_frame N bs)"
    using i by (simp_all add: ipv4_try_parse_Inr [OF N p] tcp_try_parse_Inr [OF N p])
  show "verdict N ops ctx m =
    and_then (judge ops ctx (tcp_of_frame N bs) (sg_flow s) (frame_logs N bs)
      (if sg_syn s then snd (lru_remove ops m (sg_flow s)) else m))
    (\<lambda>(a, logs, m). Inr (a, logs, if sg_teardown s then snd (lru_remove ops m (sg_flow s)) else m))"
    using i(4) unfolding i(6) segment_of_frame_def Let_def flow_segment.simps
    by (simp add: verdict_def e ip tcp MINECRAFT_PORT_def frame_logs_def Let_def cong: if_cong)
qed

lemma tcp_of_frame_bounds:
  assumes "tcp_acceptable bs"
  shows "tp_payload_offset (tcp_of_frame N bs) \<le> 134"
    and "tp_payload_offset (tcp_of_frame N bs) + tp_payload_len (tcp_of_frame N bs) = 14 + frame_tot_len bs"
    and "14 + frame_tot_len bs \<le> length bs"
  using assms frame_ihl_le [of bs] frame_doff_le [of bs]
  by (simp_all add: tcp_acceptable_def tcp_of_frame_def frame_tcp_def Let_def)

lemma payload_length:
  "tcp_acceptable bs \<Longrightarrow> length (sg_payload (segment_of_frame N bs)) = tp_payload_len (tcp_of_frame N bs)"
  using tcp_of_frame_bounds(1,2) [of bs N] tcp_of_frame_bounds(3) [of bs] by (simp add: segment_of_frame_def Let_def)

lemma check_payload:
  assumes "packet_ctx ctx bs" and "tcp_acceptable bs"
  shows "check_handshake ctx (tp_payload_offset (tcp_of_frame N bs)) (tp_payload_len (tcp_of_frame N bs)) =
    (if is_handshake (sg_payload (segment_of_frame N bs)) then Inr () else Inl (Throw XDP_DROP))"
  using check_handshake_eq [OF assms(1), of "tp_payload_offset (tcp_of_frame N bs)"
      "tp_payload_len (tcp_of_frame N bs)"] tcp_of_frame_bounds(1,2) [OF assms(2), of N]
    tcp_of_frame_bounds(3) [OF assms(2)]
  by (simp add: segment_of_frame_def Let_def)

lemma judge_refines:
  assumes p: "packet_ctx ctx bs" and t: "flow_table ops keys"
    and l: "exact \<Longrightarrow> is_handshake (sg_payload s) \<Longrightarrow> lru_room ops keys n \<and> fits n S (sg_flow s)"
    and acc: "tcp_acceptable bs" and s: "s = segment_of_frame N bs" and m: "keys m = after_syn s S"
  shows "\<exists>a logs' m'. judge ops ctx (tcp_of_frame N bs) (sg_flow s) logs m = Inr (a, logs', m') \<and>
    filter_step exact S s a (after_teardown s (keys m'))"
proof (cases "sg_payload s = []")
  case True
  with payload_length [OF acc, of N] s have "tp_payload_len (tcp_of_frame N bs) = 0" by simp
  with filter_step.bare [OF True, of exact S] m show ?thesis by (simp add: judge_def)
next
  case data: False
  with payload_length [OF acc, of N] s have len: "tp_payload_len (tcp_of_frame N bs) \<noteq> 0"
    by (metis length_0_conv)
  obtain found m1 where get: "lru_get_ptr ops m (sg_flow s) = (found, m1)" by fastforce
  with flow_table.get_ptr [OF t, of m "sg_flow s"] m
  have g: "found \<noteq> None \<longleftrightarrow> sg_flow s \<in> after_syn s S" "keys m1 = after_syn s S" by simp_all
  note check = check_payload [OF p acc, of N, folded s]
  show ?thesis
  proof (cases "found \<noteq> None")
    case True
    with filter_step.known [OF data, of S exact] g len get show ?thesis by (simp add: judge_def)
  next
    case new: False
    with g have out: "sg_flow s \<notin> after_syn s S" by simp
    show ?thesis
    proof (cases "is_handshake (sg_payload s)")
      case False
      with filter_step.refuse [OF data out, of exact] new g len get check show ?thesis
        by (simp add: judge_def)
    next
      case True
      obtain inserted m2 where ins: "lru_insert ops m1 (sg_flow s) 0 0 = (inserted, m2)" by fastforce
      with flow_table.insert_subset [OF t, of m1 "sg_flow s" 0 0] g
      have "keys m2 \<subseteq> insert (sg_flow s) (after_syn s S)" by simp
      moreover have "exact \<Longrightarrow> keys m2 = insert (sg_flow s) (after_syn s S)"
      proof -
        assume exact
        with l True have room: "lru_room ops keys n" "fits n S (sg_flow s)" by simp_all
        from room(2) have "fits n (keys m1) (sg_flow s)"
          unfolding g(2) by (rule fits_mono) (simp add: after_syn_def)
        from roomy_flow_table.insert_eq [OF roomy_tableI [OF t room(1)] this, of 0 0] ins g(2)
        show ?thesis by simp
      qed
      ultimately have "filter_step exact S s XDP_PASS (after_teardown s (keys m2))"
        by (rule filter_step.admit [OF data out True])
      with new len get check True ins show ?thesis by (simp add: judge_def Let_def)
    qed
  qed
qed

lemma verdict_step:
  assumes N: "header_layout N" and p: "packet_ctx ctx bs" and t: "lru_laws ops keys"
    and l: "exact \<Longrightarrow> is_handshake (sg_payload s) \<Longrightarrow> lru_room ops keys n \<and> fits n (keys m) (sg_flow s)"
    and c: "classify N bs = Inr s"
  shows "\<exists>a logs m'. verdict N ops ctx m = Inr (a, logs, m') \<and> filter_step exact (keys m) s a (keys m')"
proof -
  note ft = flow_table.intro [OF t]
  let ?m = "if sg_syn s then snd (lru_remove ops m (sg_flow s)) else m"
  note v = verdict_judged(2-4) [OF N p c]
  note v1 = verdict_judged(1) [OF N p c, of ops m]
  have "keys ?m = after_syn s (keys m)"
    by (simp add: after_syn_def flow_table.remove [OF ft])
  from judge_refines [OF p ft l v(2,3) this, where logs = "frame_logs N bs"] obtain a logs' m' where
    "judge ops ctx (tcp_of_frame N bs) (sg_flow s) (frame_logs N bs) ?m = Inr (a, logs', m')"
    and "filter_step exact (keys m) s a (after_teardown s (keys m'))" by blast
  then show ?thesis
    unfolding v1 by (cases "sg_teardown s") (simp_all add: after_teardown_def flow_table.remove [OF ft])
qed

section \<open>The test suite's frames\<close>

lemma word_bytes:
  assumes "n < 2 ^ 16"
  shows "256 * unat (ucast (drop_bit 8 (word_of_nat n :: u16)) :: u8) +
    unat (ucast (word_of_nat n :: u16) :: u8) = n"
proof -
  have "n div 256 < 256" using assms by (simp add: less_mult_imp_div_less)
  moreover have "unat (word_of_nat n :: u16) = n" using assms by (simp add: unat_of_nat)
  ultimately show ?thesis
    by (simp add: unsigned_ucast_eq take_bit_eq_mod drop_bit_eq_div unat_div)
qed

lemma tcp_frame_fields:
  assumes "length payload \<le> 1460"
  shows "length (tcp_frame payload) = 54 + length payload"
    and "frame_ihl (tcp_frame payload) = 20" and "frame_tcp (tcp_frame payload) = 34"
    and "frame_doff (tcp_frame payload) = 20" and "\<not> frame_fragmented (tcp_frame payload)"
    and "frame_tot_len (tcp_frame payload) = 40 + length payload"
    and "take 20 (drop 34 (tcp_frame payload)) =
      [0xD4, 0x31, 0x63, 0xDD, 0, 0, 0, 1, 0, 0, 0, 1, 0x50, 0x18, 0x20, 0, 0, 0, 0, 0]"
    and "drop 54 (tcp_frame payload) = payload"
proof -
  show "frame_tot_len (tcp_frame payload) = 40 + length payload"
    using word_bytes [of "40 + length payload"] assms
    by (simp add: frame_tot_len_def tcp_frame_def Let_def)
qed (simp_all add: tcp_frame_def Let_def frame_ihl_def frame_tcp_def frame_doff_def frame_fragmented_def)

definition test_flow :: flow_key where
  "test_flow = \<lparr>fk_source_address = 0x0A000104, fk_destination_address = 0x0A2BFF41,
     fk_source_port = 54321, fk_destination_port = 25565\<rparr>"

lemma classify_tcp_frame:
  assumes N: "header_layout N" and len: "length payload \<le> 1460"
  shows "classify N (tcp_frame payload) =
    Inr \<lparr>sg_flow = test_flow, sg_syn = False, sg_teardown = False, sg_payload = payload\<rparr>"
proof -
  note f = tcp_frame_fields [OF len]
  have b: "tcp_frame payload ! 12 = 0x08" "tcp_frame payload ! 13 = 0x00" "tcp_frame payload ! 14 = 0x45"
    "tcp_frame payload ! 23 = 6" "tcp_frame payload ! 34 = 0xD4" "tcp_frame payload ! 35 = 0x31"
    "tcp_frame payload ! 36 = 0x63" "tcp_frame payload ! 37 = 0xDD"
    by (simp_all add: tcp_frame_def Let_def)
  have a: "map ((!) (tcp_frame payload)) [26..<34] = [10, 0, 1, 4, 10, 43, 255, 65]"
    by (simp add: tcp_frame_def Let_def upt_rec)
  have acc: "ipv4_acceptable (tcp_frame payload)" "tcp_acceptable (tcp_frame payload)"
    using len by (simp_all add: ipv4_acceptable_def tcp_acceptable_def f b)
  let ?h = "take 20 (drop 34 (tcp_frame payload))"
  have "is_syn (tcp_flags_from_header N ?h) = is_syn (TcpFlags 0x18) \<and>
      is_fin (tcp_flags_from_header N ?h) = is_fin (TcpFlags 0x18) \<and>
      is_rst (tcp_flags_from_header N ?h) = is_rst (TcpFlags 0x18)"
    using tcp_flags_from_both [OF N, of ?h] unfolding f(7) by (simp add: tcp_flags_from_u8_def)
  then have fl: "\<not> is_syn (tcp_flags_from_header N ?h)" "\<not> is_fin (tcp_flags_from_header N ?h)"
    "\<not> is_rst (tcp_flags_from_header N ?h)"
    by (simp_all add: flag_bits)
  have seg: "segment_of_frame N (tcp_frame payload) =
      \<lparr>sg_flow = test_flow, sg_syn = False, sg_teardown = False, sg_payload = payload\<rparr>"
    using a fl b f len
    by (simp add: segment_of_frame_def ipv4_of_frame_def tcp_of_frame_def Let_def test_flow_def
        u16_from_be_bytes_def u32_from_be_bytes_def upt_rec)
  then show ?thesis
    using acc b f by (simp add: classify_def ipv4_of_frame_def u16_from_be_bytes_def Let_def)
qed

lemma tcp_frame_ctx:
  "length payload \<le> 1460 \<Longrightarrow> packet_ctx (fake_packet_ctx 4096 (tcp_frame payload)) (tcp_frame payload)"
  by (rule fake_packet_ctx) (simp_all add: tcp_frame_fields(1) headroom_def)

section \<open>Properties\<close>

text \<open>
  C3: one run of the program, on any packet and any table. It always ends with an action,
  without a fault. A frame that is no acceptable TCP segment to port 25565 gets the action
  \<open>classify\<close> gives and leaves the table as it is; any other is one step of the abstract
  filter, on the set of stored flows.
\<close>

theorem verdict_refines_filter:
  assumes "header_layout N" and "packet_ctx ctx bs" and "lru_laws ops keys"
  shows "\<exists>a logs m'. verdict N ops ctx m = Inr (a, logs, m') \<and>
    (case classify N bs of
       Inl a0 \<Rightarrow> a = a0 \<and> m' = m
     | Inr s \<Rightarrow> filter_step False (keys m) s a (keys m'))"
proof (cases "classify N bs")
  case (Inl a)
  with verdict_unjudged [OF assms(1,2)] show ?thesis by fastforce
next
  case (Inr s)
  with verdict_step [OF assms, where exact = False] show ?thesis by simp
qed

theorem verdict_refines_filter_witness:
  "\<exists>a logs m'. verdict rfc_headers lru_list (fake_packet_ctx 4096 (tcp_frame [1, 0])) [] = Inr (a, logs, m') \<and>
     filter_step False {} \<lparr>sg_flow = test_flow, sg_syn = False, sg_teardown = False, sg_payload = [1, 0]\<rparr>
       a (set m')"
  using verdict_refines_filter [OF rfc_headers_layout tcp_frame_ctx [of "[1, 0]"] lru.laws, of "[]"]
    classify_tcp_frame [OF rfc_headers_layout, of "[1, 0]"]
  by simp

text \<open>
  C31: frames the filter has no business with, and those it refuses on sight, whatever the table
  holds and without touching it. Passed are: a frame that is not IPv4, an IPv4 packet of a known
  protocol other than TCP, and a well-formed TCP packet to another port. Dropped, whatever its
  ports, is a TCP packet that is a fragment, has a header under 20 bytes, or has a total length
  under its header's, over 1500 or past the end of the frame.
\<close>

theorem verdict_other_traffic:
  assumes "header_layout N" and "packet_ctx ctx bs" and "14 \<le> length bs"
  shows "(u16_from_be_bytes [bs ! 12, bs ! 13] \<noteq> 0x0800 \<longrightarrow>
      (\<exists>logs. verdict N ops ctx m = Inr (XDP_PASS, logs, m))) \<and>
    (u16_from_be_bytes [bs ! 12, bs ! 13] = 0x0800 \<and> 34 \<le> length bs \<and> unat (bs ! 14) div 16 = 4 \<longrightarrow>
      (bs ! 23 \<noteq> 6 \<and> \<not> isl (ip_proto N (take 20 (drop 14 bs))) \<longrightarrow>
        (\<exists>logs. verdict N ops ctx m = Inr (XDP_PASS, logs, m))) \<and>
      (ipv4_acceptable bs \<and> ip4_destination_port (ipv4_of_frame bs) \<noteq> 25565 \<longrightarrow>
        (\<exists>logs. verdict N ops ctx m = Inr (XDP_PASS, logs, m))) \<and>
      (bs ! 23 = 6 \<and> (frame_fragmented bs \<or> frame_ihl bs < 20 \<or> frame_tot_len bs < frame_ihl bs \<or>
          1500 < frame_tot_len bs \<or> length bs < 14 + frame_tot_len bs) \<longrightarrow>
        (\<exists>logs. verdict N ops ctx m = Inr (XDP_DROP, logs, m))))"
proof -
  have pass: "classify N bs = Inl XDP_PASS"
    if "u16_from_be_bytes [bs ! 12, bs ! 13] \<noteq> 0x0800 \<or>
      ipv4_acceptable bs \<and> ip4_destination_port (ipv4_of_frame bs) \<noteq> 25565"
    using that assms(3) by (auto simp: classify_def)
  have udp: "classify N bs = Inl XDP_PASS"
    if "34 \<le> length bs" "unat (bs ! 14) div 16 = 4" "bs ! 23 \<noteq> 6" "\<not> isl (ip_proto N (take 20 (drop 14 bs)))"
    using that by (simp add: classify_def ipv4_acceptable_def ipv4_reject_action_def)
  have drop: "classify N bs = Inl XDP_DROP"
    if "u16_from_be_bytes [bs ! 12, bs ! 13] = 0x0800" "34 \<le> length bs" "bs ! 23 = 6"
      "frame_fragmented bs \<or> frame_ihl bs < 20 \<or> frame_tot_len bs < frame_ihl bs \<or>
        1500 < frame_tot_len bs \<or> length bs < 14 + frame_tot_len bs"
    using that ipv4_reject_malformed [OF that(2,3,4)] by (auto simp: classify_def ipv4_acceptable_def)
  note v = verdict_unjudged [OF assms(1,2)]
  show ?thesis
    by (intro conjI impI v)
       ((rule pass; blast), (rule udp; blast), (rule pass; blast), (rule drop; blast))
qed

theorem verdict_other_traffic_witness:
  "\<exists>logs. verdict rfc_headers lru_list (fake_packet_ctx 4096 (LOCALHOST_LOGIN_FRAME[20 := 0x20])) [] =
     Inr (XDP_DROP, logs, [])"
proof -
  let ?bs = "LOCALHOST_LOGIN_FRAME[20 := 0x20]"
  have p: "packet_ctx (fake_packet_ctx 4096 ?bs) ?bs"
    by (rule fake_packet_ctx) (simp_all add: LOCALHOST_LOGIN_FRAME_def headroom_def)
  have "u16_from_be_bytes [?bs ! 12, ?bs ! 13] = 0x0800 \<and> 34 \<le> length ?bs \<and> unat (?bs ! 14) div 16 = 4"
    by (simp add: LOCALHOST_LOGIN_FRAME_def u16_from_be_bytes_def)
  moreover have "?bs ! 23 = 6 \<and> frame_fragmented ?bs"
    by (simp add: LOCALHOST_LOGIN_FRAME_def frame_fragmented_def)
  ultimately show ?thesis using verdict_other_traffic [OF rfc_headers_layout p, of lru_list "[]"] by simp
qed

text \<open>
  The whole path from a frame's bytes to the action, on the frames the test suite sends:
  a data segment to port 25565 is passed exactly when its flow is in the table or its payload
  starts with a handshake, and is dropped otherwise.
\<close>

theorem verdict_tcp_frame:
  assumes "header_layout N" and "packet_ctx ctx (tcp_frame payload)" and "lru_laws ops keys"
    and "length payload \<le> 1460"
  shows "\<exists>logs m'. verdict N ops ctx m =
    Inr (if payload = [] \<or> test_flow \<in> keys m \<or> is_handshake payload then XDP_PASS else XDP_DROP, logs, m')"
proof -
  from verdict_step [OF assms(1-3) _ classify_tcp_frame [OF assms(1,4)], where exact = False and m = m]
  obtain a logs m' where v: "verdict N ops ctx m = Inr (a, logs, m')"
    and st: "filter_step False (keys m)
      \<lparr>sg_flow = test_flow, sg_syn = False, sg_teardown = False, sg_payload = payload\<rparr> a (keys m')"
    by auto
  from v filter_step_action [OF st] show ?thesis by (simp add: after_syn_def)
qed

theorem verdict_tcp_frame_witness:
  "\<exists>logs m'. verdict rfc_headers lru_list (fake_packet_ctx 4096 (tcp_frame localhost_login_wire)) [] =
     Inr (XDP_PASS, logs, m')"
  using verdict_tcp_frame [OF rfc_headers_layout tcp_frame_ctx lru.laws, of localhost_login_wire "[]"]
    localhost_wire_accepted [of "[]"]
  by (simp add: localhost_wire_length)

end
