(* ===== verification/Packet_Filter.thy ===== *)
theory Packet_Filter
  imports Verdict
begin

text \<open>
  Runs: the XDP program on one packet after another, the state of \<open>ALLOWED_FLOWS\<close> carried from
  run to run as the kernel does. The abstract filter of \<open>Verdict\<close> gives the reachable states;
  \<open>opened\<close> says from the history of segments alone, with no table, which flows have shown a
  handshake. The safety theorem compares the two: data is passed only on such flows.
\<close>

section \<open>Runs of the program\<close>

fun verdicts ::
  "network_types \<Rightarrow> (flow_key, 'm) lru_map \<Rightarrow> xdp_context list \<Rightarrow> 'm \<Rightarrow>
   (xdp_action list \<times> 'm, unit) outcome" where
  "verdicts N ops [] m = Inr ([], m)"
| "verdicts N ops (ctx # ctxs) m =
     and_then (mc_sniffer N ops ctx m) (\<lambda>(a, _, m).
     and_then (verdicts N ops ctxs m) (\<lambda>(as, m). Inr (a # as, m)))"

lemma verdicts_append:
  "verdicts N ops (cs @ ds) m =
     and_then (verdicts N ops cs m) (\<lambda>(as, m).
     and_then (verdicts N ops ds m) (\<lambda>(bs, m). Inr (as @ bs, m)))"
proof (induction cs arbitrary: m)
  case Nil
  then show ?case by (cases "verdicts N ops ds m") auto
next
  case (Cons c cs)
  show ?case
  proof (cases "mc_sniffer N ops c m")
    case (Inr r)
    then show ?thesis
      by (cases r, cases "verdicts N ops cs (snd (snd r))",
          simp_all add: Cons.IH, cases "verdicts N ops ds (snd (projr (verdicts N ops cs (snd (snd r)))))")
         (auto simp: Cons.IH split: prod.splits)
  qed simp
qed

definition segments :: "network_types \<Rightarrow> bytes list \<Rightarrow> flow_segment list" where
  \<comment> \<open>the frames that are acceptable segments to port 25565, oldest first\<close>
  "segments N bss = concat (map (\<lambda>bs. case classify N bs of Inl _ \<Rightarrow> [] | Inr s \<Rightarrow> [s]) bss)"

section \<open>Reachable states of the abstract filter\<close>

inductive reachable :: "bool \<Rightarrow> flow_segment list \<Rightarrow> flow_key set \<Rightarrow> bool" for exact :: bool where
  start: "reachable exact [] {}"
| step: "reachable exact h S \<Longrightarrow> filter_step exact S s a S' \<Longrightarrow> reachable exact (s # h) S'"

fun opened :: "flow_key \<Rightarrow> flow_segment list \<Rightarrow> bool" where
  \<comment> \<open>newest first: since its last SYN, and with no FIN or RST since, the flow has shown a handshake\<close>
  "opened f [] = False"
| "opened f (s # h) =
     (if sg_flow s \<noteq> f then opened f h
      else \<not> sg_teardown s \<and> (is_handshake (sg_payload s) \<or> \<not> sg_syn s \<and> opened f h))"

lemma step_keeps_opened:
  assumes "filter_step exact S s a S'" and "\<And>f. f \<in> S \<Longrightarrow> opened f h" and "f \<in> S'"
  shows "opened f (s # h)"
  using assms(1)
  by (rule filter_stepE) (use assms(2,3) in \<open>auto simp: after_teardown_def after_syn_def split: if_splits\<close>)

lemma step_exact_opened:
  assumes "filter_step True S s a S'" and "\<And>f. f \<in> S \<longleftrightarrow> opened f h"
  shows "f \<in> S' \<longleftrightarrow> opened f (s # h)"
  using assms(1)
  by (rule filter_stepE) (use assms(2) in \<open>auto simp: after_teardown_def after_syn_def split: if_splits\<close>)

lemma reachable_opened: "reachable exact h S \<Longrightarrow> f \<in> S \<Longrightarrow> opened f h"
  by (induction arbitrary: f rule: reachable.induct) (simp, rule step_keeps_opened)

lemma reachable_exact: "reachable True h S \<Longrightarrow> f \<in> S \<longleftrightarrow> opened f h"
  by (induction arbitrary: f rule: reachable.induct) (simp, rule step_exact_opened)

section \<open>Room in the table, told from the history\<close>

definition open_flows :: "flow_segment list \<Rightarrow> flow_key set" where
  "open_flows h = set (filter (\<lambda>f. opened f h) (map sg_flow h))"

lemma opened_flow: "opened f h \<Longrightarrow> f \<in> sg_flow ` set h"
  by (induction f h rule: opened.induct) (auto split: if_splits)

lemma open_flows_iff: "f \<in> open_flows h \<longleftrightarrow> opened f h"
  using opened_flow by (force simp: open_flows_def)

lemma finite_open_flows [simp]: "finite (open_flows h)"
  by (simp add: open_flows_def)

fun roomy :: "nat \<Rightarrow> flow_segment list \<Rightarrow> bool" where
  \<comment> \<open>newest first: at each handshake the flows open by then, with its own, are at most \<open>n\<close>\<close>
  "roomy n [] = True"
| "roomy n (s # h) = (roomy n h \<and> (is_handshake (sg_payload s) \<longrightarrow> fits n (open_flows h) (sg_flow s)))"

lemma roomy_append: "roomy n (h @ h') \<Longrightarrow> roomy n h'"
  by (induction h) simp_all

section \<open>Every run of the program is a run of the filter\<close>

lemma reachable_fits:
  "reachable True h S \<Longrightarrow> roomy n (s # h) \<Longrightarrow> is_handshake (sg_payload s) \<Longrightarrow> fits n S (sg_flow s)"
  using reachable_exact [of h S] by (auto simp: open_flows_iff elim: fits_mono)

lemma run_reachable:
  assumes N: "header_layout N" and t: "lru_laws ops keys" and p: "list_all2 packet_ctx ctxs bss"
    and l: "exact \<Longrightarrow> lru_room ops keys n \<and> roomy n (rev (segments N bss) @ h)"
    and r: "reachable exact h (keys m)"
  shows "\<exists>as m'. verdicts N ops ctxs m = Inr (as, m') \<and> length as = length ctxs \<and>
    reachable exact (rev (segments N bss) @ h) (keys m')"
  using p l r
proof (induction ctxs bss arbitrary: m h rule: list_all2_induct)
  case Nil
  then show ?case by (simp add: segments_def)
next
  case (Cons ctx ctxs bs bss)
  show ?case
  proof (cases "classify N bs")
    case (Inl a)
    from verdict_unjudged [OF N Cons.hyps(1) Inl, of ops m] obtain logs where
      v: "verdict N ops ctx m = Inr (a, logs, m)" ..
    from Cons.prems(1) Inl have "exact \<Longrightarrow> lru_room ops keys n \<and> roomy n (rev (segments N bss) @ h)"
      by (simp add: segments_def)
    from Cons.IH [OF this Cons.prems(2)] obtain as m' where
      "verdicts N ops ctxs m = Inr (as, m')" "length as = length ctxs"
      "reachable exact (rev (segments N bss) @ h) (keys m')" by blast
    with Inl v show ?thesis
      by (intro exI [of _ "a # as"] exI [of _ m']) (simp add: mc_sniffer_def segments_def)
  next
    case (Inr s)
    from Cons.prems(1) Inr have room: "exact \<Longrightarrow> lru_room ops keys n \<and> roomy n (rev (segments N bss) @ s # h)"
      by (simp add: segments_def)
    then have "exact \<Longrightarrow> is_handshake (sg_payload s) \<Longrightarrow> lru_room ops keys n \<and> fits n (keys m) (sg_flow s)"
      using reachable_fits [of h "keys m" n s] roomy_append [of n _ "s # h"] Cons.prems(2) by (cases exact) auto
    from verdict_step [OF N Cons.hyps(1) t this Inr] obtain a logs m1 where
      v: "verdict N ops ctx m = Inr (a, logs, m1)" and st: "filter_step exact (keys m) s a (keys m1)" by blast
    from reachable.step [OF Cons.prems(2) st] have "reachable exact (s # h) (keys m1)" .
    from Cons.IH [OF room this] obtain as m' where
      "verdicts N ops ctxs m1 = Inr (as, m')" "length as = length ctxs"
      "reachable exact (rev (segments N bss) @ s # h) (keys m')" by blast
    with Inr v show ?thesis
      by (intro exI [of _ "a # as"] exI [of _ m']) (simp add: mc_sniffer_def segments_def)
  qed
qed

lemma verdict_total:
  assumes "header_layout N" and "packet_ctx ctx bs" and "lru_laws ops keys"
  shows "\<exists>a logs m'. verdict N ops ctx m = Inr (a, logs, m')"
proof (cases "classify N bs")
  case (Inl a)
  from verdict_unjudged [OF assms(1,2) Inl, of ops m] show ?thesis by blast
next
  case (Inr s)
  from verdict_step [OF assms _ Inr, where exact = False and m = m] show ?thesis by blast
qed

lemma verdicts_total:
  assumes "header_layout N" and "lru_laws ops keys" and "list_all2 packet_ctx ctxs bss"
  shows "\<exists>as m'. verdicts N ops ctxs m = Inr (as, m') \<and> length as = length ctxs"
  using assms(3)
proof (induction ctxs bss arbitrary: m rule: list_all2_induct)
  case (Cons ctx ctxs bs bss)
  from verdict_total [OF assms(1) Cons.hyps(1) assms(2)] obtain a logs m1 where
    v: "verdict N ops ctx m = Inr (a, logs, m1)" by blast
  from Cons.IH obtain as m' where "verdicts N ops ctxs m1 = Inr (as, m')" "length as = length ctxs" by blast
  with v show ?case by (intro exI [of _ "a # as"] exI [of _ m']) (simp add: mc_sniffer_def)
qed simp

text \<open>Any packet of a run that starts from an empty table, seen from the history before it.\<close>

lemma run_position:
  assumes N: "header_layout N" and t: "lru_laws ops keys"
    and l: "exact \<Longrightarrow> lru_room ops keys n \<and> roomy n (rev (segments N bss))"
    and p: "list_all2 packet_ctx ctxs bss" "packet_ctx ctx bs" and m0: "keys m0 = {}"
    and c: "classify N bs = Inr s"
    and run: "verdicts N ops (ctxs @ ctx # ctxs') m0 = Inr (as @ a # as', m)" "length as = length ctxs"
  shows "\<exists>S S'. reachable exact (rev (segments N bss)) S \<and> filter_step False S s a S'"
proof -
  have "reachable exact [] (keys m0)" using m0 by (simp add: reachable.start)
  from run_reachable [OF N t p(1) _ this, simplified, OF l] obtain as1 m1 where
    1: "verdicts N ops ctxs m0 = Inr (as1, m1)" "length as1 = length ctxs"
      "reachable exact (rev (segments N bss)) (keys m1)" by blast
  from verdict_step [OF N p(2) t _ c, where exact = False and m = m1] obtain a1 logs m2 where
    2: "verdict N ops ctx m1 = Inr (a1, logs, m2)" and st: "filter_step False (keys m1) s a1 (keys m2)"
    by blast
  have "as1 @ a1 # tl = as @ a # as' \<Longrightarrow> a1 = a" for tl
    using 1(2) run(2) by (simp add: append_eq_append_conv)
  then have "a1 = a"
    using run(1) 1(1) 2 unfolding verdicts_append
    by (cases "verdicts N ops ctxs' m2") (auto simp: mc_sniffer_def)
  with st 1(3) show ?thesis by blast
qed

lemma opened_handshake:
  "opened f h \<Longrightarrow> \<exists>s \<in> set h. sg_flow s = f \<and> is_handshake (sg_payload s)"
  by (induction f h rule: opened.induct) (auto split: if_splits)

text \<open>Whatever the table evicts, a flow still only leaves it for one of three reasons.\<close>

lemma step_closes:
  assumes "filter_step exact S s a S'" and "f \<in> S" and "f \<notin> S'"
  shows "sg_flow s = f \<and> (sg_syn s \<or> sg_teardown s) \<or>
    sg_flow s \<noteq> f \<and> sg_flow s \<notin> after_syn s S \<and> is_handshake (sg_payload s)"
  using assms(1)
  by (rule filter_stepE) (use assms(2,3) in \<open>auto simp: after_teardown_def after_syn_def split: if_splits\<close>)

text \<open>One segment against a table with room: the action, and the table after it.\<close>

lemma verdict_with_room:
  assumes "header_layout N" and "packet_ctx ctx bs" and "lru_laws ops keys" and "classify N bs = Inr s"
    and "lru_room ops keys n" and "fits n (keys m) (sg_flow s)"
  shows "\<exists>logs m'. mc_sniffer N ops ctx m =
      Inr (if sg_payload s = [] \<or> sg_flow s \<in> after_syn s (keys m) \<or> is_handshake (sg_payload s)
        then XDP_PASS else XDP_DROP, logs, m') \<and>
    keys m' = after_teardown s
      (if is_handshake (sg_payload s) then insert (sg_flow s) (after_syn s (keys m)) else after_syn s (keys m))"
proof -
  have "True \<Longrightarrow> is_handshake (sg_payload s) \<Longrightarrow> lru_room ops keys n \<and> fits n (keys m) (sg_flow s)"
    using assms(5,6) by simp
  from verdict_step [OF assms(1-3) this assms(4)] obtain a logs m' where
    v: "verdict N ops ctx m = Inr (a, logs, m')" and st: "filter_step True (keys m) s a (keys m')" by blast
  from v filter_step_action [OF st] filter_step_table [OF st] show ?thesis by (simp add: mc_sniffer_def)
qed

lemma late_handshake_run:
  assumes "header_layout N" and "lru_laws ops keys" and "lru_room ops keys n" and "fits n (keys m) f"
    and "packet_ctx c1 b1" and "packet_ctx c2 b2" and "packet_ctx c3 b3"
    and "classify N b1 = Inr s1" and "classify N b2 = Inr s2" and "classify N b3 = Inr s3"
    and "sg_flow s1 = f" and "sg_flow s2 = f" and "sg_flow s3 = f"
    and "sg_payload s1 \<noteq> []" and "\<not> is_handshake (sg_payload s1)" and "sg_syn s1 \<or> f \<notin> keys m"
    and "is_handshake (sg_payload s2)" and "\<not> sg_teardown s2" and "\<not> sg_syn s3"
  shows "\<exists>m'. verdicts N ops [c1, c2, c3] m = Inr ([XDP_DROP, XDP_PASS, XDP_PASS], m')"
proof -
  note room = verdict_with_room [OF assms(1) _ assms(2) _ assms(3)]
  from room [OF assms(5,8), of m] assms(4,11,14-16) obtain l1 m1 where
    1: "mc_sniffer N ops c1 m = Inr (XDP_DROP, l1, m1)" "keys m1 \<subseteq> keys m"
    by (auto simp: after_syn_def after_teardown_def)
  from fits_mono [OF assms(4) 1(2)] have "fits n (keys m1) f" .
  with room [OF assms(6,9), of m1] assms(12,17,18) obtain l2 m2 where
    2: "mc_sniffer N ops c2 m1 = Inr (XDP_PASS, l2, m2)" "f \<in> keys m2"
    by (auto simp: after_teardown_def)
  from verdict_step [OF assms(1,7,2) _ assms(10), where exact = False and m = m2] obtain a l3 m3 where
    3: "verdict N ops c3 m2 = Inr (a, l3, m3)" and st: "filter_step False (keys m2) s3 a (keys m3)" by blast
  from filter_step_action [OF st] 2(2) assms(13,19) have "a = XDP_PASS" by (simp add: after_syn_def)
  with 1 2 3 show ?thesis by (simp add: mc_sniffer_def)
qed

lemma handshake_min_length: "is_handshake payload \<Longrightarrow> 7 \<le> length payload"
  by (auto simp: starts_with_handshake_def dest!: varint_length handshake_body_length)

abbreviation test_ctx :: "bytes \<Rightarrow> xdp_context" where
  "test_ctx payload \<equiv> fake_packet_ctx 4096 (tcp_frame payload)"

lemma not_handshake_short [simp]: "\<not> is_handshake [1, 0]"
  using handshake_min_length [of "[1, 0]"] by auto

lemma login_is_handshake [simp]: "is_handshake localhost_login_wire"
  using localhost_wire_accepted [of "[]"] by simp

lemma test_frame_segment:
  assumes "length payload \<le> 1460"
  shows "packet_ctx (test_ctx payload) (tcp_frame payload)"
    and "classify rfc_headers (tcp_frame payload) =
      Inr \<lparr>sg_flow = test_flow, sg_syn = False, sg_teardown = False, sg_payload = payload\<rparr>"
  using assms by (simp_all add: tcp_frame_ctx classify_tcp_frame [OF rfc_headers_layout])

lemma test_run:
  "\<exists>m'. verdicts rfc_headers lru_list [test_ctx [1, 0], test_ctx localhost_login_wire, test_ctx [1, 0]] [] =
     Inr ([XDP_DROP, XDP_PASS, XDP_PASS], m')"
proof -
  have "length localhost_login_wire \<le> 1460" "length [1, 0 :: u8] \<le> 1460" by (simp_all add: localhost_wire_length)
  note f = test_frame_segment [OF this(1)] test_frame_segment [OF this(2)]
  show ?thesis
    by (rule late_handshake_run [OF rfc_headers_layout lru.laws lru.room _ f(3,1,3,4,2,4)])
       (simp_all add: fits_def max_entries_def)
qed

lemma test_segments:
  "segments rfc_headers [tcp_frame [1, 0], tcp_frame localhost_login_wire] =
     [\<lparr>sg_flow = test_flow, sg_syn = False, sg_teardown = False, sg_payload = [1, 0]\<rparr>,
      \<lparr>sg_flow = test_flow, sg_syn = False, sg_teardown = False, sg_payload = localhost_login_wire\<rparr>]"
  by (simp add: segments_def classify_tcp_frame [OF rfc_headers_layout] localhost_wire_length)

text \<open>The fixture's frame with FIN set.\<close>

definition fin_frame :: bytes where
  "fin_frame = LOCALHOST_LOGIN_FRAME[47 := 0x11]"

lemma fin_frame_ctx: "packet_ctx (fake_packet_ctx 4096 fin_frame) fin_frame"
  by (rule fake_packet_ctx) (simp_all add: fin_frame_def LOCALHOST_LOGIN_FRAME_def headroom_def)

lemma fin_frame_classify:
  "\<exists>payload. classify rfc_headers fin_frame =
     Inr \<lparr>sg_flow = test_flow, sg_syn = False, sg_teardown = True, sg_payload = payload\<rparr>"
proof -
  have f: "length fin_frame = 71" "frame_ihl fin_frame = 20" "frame_tot_len fin_frame = 57"
    "frame_tcp fin_frame = 34" "frame_doff fin_frame = 20" "\<not> frame_fragmented fin_frame"
    by (simp_all add: fin_frame_def LOCALHOST_LOGIN_FRAME_def frame_ihl_def frame_tot_len_def frame_tcp_def
        frame_doff_def frame_fragmented_def)
  have acc: "ipv4_acceptable fin_frame" "tcp_acceptable fin_frame"
    by (simp_all add: ipv4_acceptable_def tcp_acceptable_def f)
       (simp_all add: fin_frame_def LOCALHOST_LOGIN_FRAME_def)
  have "sg_flow (segment_of_frame rfc_headers fin_frame) = test_flow"
    "ip4_destination_port (ipv4_of_frame fin_frame) = 25565"
    by (simp_all add: segment_of_frame_def ipv4_of_frame_def f test_flow_def Let_def)
       (simp_all add: fin_frame_def LOCALHOST_LOGIN_FRAME_def u16_from_be_bytes_def u32_from_be_bytes_def)
  moreover have "\<not> sg_syn (segment_of_frame rfc_headers fin_frame) \<and> sg_teardown (segment_of_frame rfc_headers fin_frame)"
    by (simp add: segment_of_frame_def tcp_of_frame_def f tcp_flags_from_header_bits rfc_headers_def Let_def)
       (simp add: fin_frame_def LOCALHOST_LOGIN_FRAME_def bit_iff_odd)
  ultimately have "classify rfc_headers fin_frame = Inr \<lparr>sg_flow = test_flow, sg_syn = False,
      sg_teardown = True, sg_payload = sg_payload (segment_of_frame rfc_headers fin_frame)\<rparr>"
    using acc f by (simp add: classify_def)
      (simp add: fin_frame_def LOCALHOST_LOGIN_FRAME_def u16_from_be_bytes_def)
  then show ?thesis ..
qed

end
