(* ===== verification/Tasks.thy ===== *)
theory Tasks
  imports Packet_Filter
begin

text \<open>
  One run of \<open>verdict\<close> (\<open>mc-sniffer-ebpf/src/main.rs\<close>) as the sequence of its calls on the map
  \<open>ALLOWED_FLOWS\<close>, abstractly: a \<open>task\<close> is a run stopped before its next map call and knows its
  packet only by the segment it carries, and \<open>task_step\<close> takes it to the call after. The kernel
  runs the program on every receive queue's CPU and all runs share the map; a call on it is
  atomic, what lies between two calls is local to a run. Without interference the steps of a
  task are the run that \<open>verdict\<close> is. Theory \<open>Concurrent\<close> lets many tasks interleave; the code
  itself, cut at the same places, is in theory \<open>Calls\<close> and refines this.
\<close>

section \<open>A run, one map call at a time\<close>

datatype task =
    Idle
  | At_syn flow_segment                    \<comment> \<open>before the removal on SYN\<close>
  | At_lookup flow_segment                 \<comment> \<open>before \<open>get_ptr\<close>\<close>
  | At_insert flow_segment                 \<comment> \<open>the handshake is valid, before \<open>insert\<close>\<close>
  | At_teardown flow_segment xdp_action    \<comment> \<open>the action is decided, before the removal on FIN or RST\<close>

definition torn_down :: "(flow_key, 'm) lru_map \<Rightarrow> flow_segment \<Rightarrow> 'm \<Rightarrow> 'm" where
  "torn_down ops s m = (if sg_teardown s then snd (lru_remove ops m (sg_flow s)) else m)"

fun task_step ::
  "(flow_key, 'm) lru_map \<Rightarrow> task \<Rightarrow> 'm \<Rightarrow> task \<times> 'm \<times> (flow_segment \<times> xdp_action) option" where
  "task_step ops Idle m = (Idle, m, None)"
| "task_step ops (At_syn s) m =
     (if sg_payload s = [] then At_teardown s XDP_PASS else At_lookup s,
      if sg_syn s then snd (lru_remove ops m (sg_flow s)) else m, None)"
| "task_step ops (At_lookup s) m =
     (case lru_get_ptr ops m (sg_flow s) of (found, m) \<Rightarrow>
       (if found \<noteq> None then At_teardown s XDP_PASS
        else if is_handshake (sg_payload s) then At_insert s
        else At_teardown s XDP_DROP, m, None))"
| "task_step ops (At_insert s) m = (At_teardown s XDP_PASS, snd (lru_insert ops m (sg_flow s) 0 0), None)"
| "task_step ops (At_teardown s a) m =
     (Idle, torn_down ops s m, Some (s, a))"

inductive runs_alone ::
  "(flow_key, 'm) lru_map \<Rightarrow> task \<Rightarrow> 'm \<Rightarrow> xdp_action \<Rightarrow> 'm \<Rightarrow> bool" for ops :: "(flow_key, 'm) lru_map" where
  finish: "task_step ops t m = (t', m', Some (s, a)) \<Longrightarrow> runs_alone ops t m a m'"
| continue: "task_step ops t m = (t', m', None) \<Longrightarrow> t \<noteq> Idle \<Longrightarrow> runs_alone ops t' m' a m'' \<Longrightarrow>
    runs_alone ops t m a m''"

fun task_segment :: "task \<Rightarrow> flow_segment option" where
  "task_segment Idle = None"
| "task_segment (At_syn s) = Some s"
| "task_segment (At_lookup s) = Some s"
| "task_segment (At_insert s) = Some s"
| "task_segment (At_teardown s a) = Some s"

fun calls_left :: "task \<Rightarrow> nat" where
  \<comment> \<open>a bound on the steps a task still takes\<close>
  "calls_left Idle = 0"
| "calls_left (At_syn s) = 4"
| "calls_left (At_lookup s) = 3"
| "calls_left (At_insert s) = 2"
| "calls_left (At_teardown s a) = 1"

lemma task_step_progress:
  assumes "task_step ops t m = (t', m', e)" and "task_segment t = Some s"
  shows "e = None \<and> task_segment t' = Some s \<and> calls_left t' < calls_left t \<or>
    (\<exists>a. e = Some (s, a)) \<and> t' = Idle"
  using assms by (cases t) (auto split: prod.splits if_splits)

lemma runs_alone_det:
  "runs_alone ops t m a m' \<Longrightarrow> runs_alone ops t m b m'' \<Longrightarrow> a = b \<and> m' = m''"
proof (induction arbitrary: b m'' rule: runs_alone.induct)
  case (finish t m t' m' s a)
  from finish.prems show ?case
  proof cases
    case (finish t2 s2)
    with \<open>task_step ops t m = (t', m', Some (s, a))\<close> show ?thesis by simp
  next
    case (continue t2 m2)
    with \<open>task_step ops t m = (t', m', Some (s, a))\<close> show ?thesis by simp
  qed
next
  case (continue t m t' m' a m1)
  from continue.prems show ?case
  proof cases
    case (finish t2 s2)
    with continue.hyps(1) show ?thesis by simp
  next
    case (continue t2 m2)
    with \<open>task_step ops t m = (t', m', None)\<close> have "runs_alone ops t' m' b m''" by simp
    then show ?thesis by (rule \<open>\<And>b m''. runs_alone ops t' m' b m'' \<Longrightarrow> a = b \<and> m1 = m''\<close>)
  qed
qed

lemma judge_runs_alone:
  assumes p: "packet_ctx ctx bs" and acc: "tcp_acceptable bs" and s: "s = segment_of_frame N bs"
    and j: "judge ops ctx (tcp_of_frame N bs) (sg_flow s) logs m = Inr (a, logs', m')"
  shows "(sg_payload s = [] \<longrightarrow> a = XDP_PASS \<and> m' = m) \<and>
    (sg_payload s \<noteq> [] \<longrightarrow>
       runs_alone ops (At_lookup s) m a (torn_down ops s m'))"
proof -
  note len = payload_length [OF acc, of N, folded s] and check = check_payload [OF p acc, of N, folded s]
  have tear: "runs_alone ops (At_teardown s a) m1 a (torn_down ops s m1)" for a m1
    by (rule runs_alone.finish) simp
  show ?thesis
  proof (cases "sg_payload s = []")
    case True
    with len j show ?thesis by (simp add: judge_def)
  next
    case False
    with len have n: "tp_payload_len (tcp_of_frame N bs) \<noteq> 0" by (metis length_0_conv)
    obtain found m1 where g: "lru_get_ptr ops m (sg_flow s) = (found, m1)" by fastforce
    have look: "runs_alone ops (At_lookup s) m a m''"
      if "runs_alone ops (if found \<noteq> None then At_teardown s XDP_PASS
        else if is_handshake (sg_payload s) then At_insert s else At_teardown s XDP_DROP) m1 a m''" for m''
      by (rule runs_alone.continue [OF _ _ that]) (simp_all add: g)
    consider "found \<noteq> None" | "found = None" "\<not> is_handshake (sg_payload s)"
      | "found = None" "is_handshake (sg_payload s)" by blast
    then have "runs_alone ops (At_lookup s) m a (torn_down ops s m')"
    proof cases
      case 1
      with j n g have "a = XDP_PASS" "m' = m1" by (auto simp: judge_def)
      with 1 look tear show ?thesis by simp
    next
      case 2
      with j n g check have "a = XDP_DROP" "m' = m1" by (auto simp: judge_def)
      with 2 look tear show ?thesis by simp
    next
      case 3
      with j n g check have a: "a = XDP_PASS" "m' = snd (lru_insert ops m1 (sg_flow s) 0 0)"
        by (auto simp: judge_def Let_def split: prod.splits)
      have "runs_alone ops (At_insert s) m1 a (torn_down ops s m')"
        by (rule runs_alone.continue [OF _ _ tear [of a m']]) (simp_all add: a)
      with 3 look show ?thesis by simp
    qed
    with False show ?thesis by simp
  qed
qed

lemma verdict_runs_alone:
  assumes N: "header_layout N" and p: "packet_ctx ctx bs" and c: "classify N bs = Inr s"
    and v: "verdict N ops ctx m = Inr (a, logs, m')"
  shows "runs_alone ops (At_syn s) m a m'"
proof -
  let ?m = "if sg_syn s then snd (lru_remove ops m (sg_flow s)) else m"
  note acc = verdict_judged(3,4) [OF N p c]
  from v [unfolded verdict_judged(1) [OF N p c]] obtain logs2 m2 where
    j: "judge ops ctx (tcp_of_frame N bs) (sg_flow s) (frame_logs N bs) ?m = Inr (a, logs2, m2)"
    and m': "m' = torn_down ops s m2"
    by (auto simp: and_then_Inr_iff torn_down_def)
  note alone = judge_runs_alone [OF p acc j, folded m']
  show ?thesis
  proof (cases "sg_payload s = []")
    case True
    with alone m' have "runs_alone ops (At_teardown s a) ?m a m'"
      by (intro runs_alone.finish) simp
    with True alone show ?thesis
      by (intro runs_alone.continue [of ops "At_syn s" m "At_teardown s a" ?m]) simp_all
  next
    case False
    with alone show ?thesis
      by (intro runs_alone.continue [of ops "At_syn s" m "At_lookup s" ?m]) simp_all
  qed
qed

lemma verdict_alone_iff:
  assumes N: "header_layout N" and p: "packet_ctx ctx bs" and t: "lru_laws ops keys"
    and c: "classify N bs = Inr s"
  shows "(\<exists>logs. verdict N ops ctx m = Inr (a, logs, m')) \<longleftrightarrow> runs_alone ops (At_syn s) m a m'"
proof
  assume alone: "runs_alone ops (At_syn s) m a m'"
  from verdict_total [OF N p t, of m] obtain b logs m'' where
    v: "verdict N ops ctx m = Inr (b, logs, m'')" by blast
  from runs_alone_det [OF alone verdict_runs_alone [OF N p c v]] v
  show "\<exists>logs. verdict N ops ctx m = Inr (a, logs, m')" by blast
next
  assume "\<exists>logs. verdict N ops ctx m = Inr (a, logs, m')"
  then obtain logs where "verdict N ops ctx m = Inr (a, logs, m')" ..
  then show "runs_alone ops (At_syn s) m a m'" by (rule verdict_runs_alone [OF N p c])
qed

lemma login_runs_alone:
  assumes "sg_payload s = localhost_login_wire" and "\<not> sg_syn s" and "\<not> sg_teardown s"
  shows "runs_alone lru_list (At_syn s) [] XDP_PASS [sg_flow s]"
proof -
  have ne: "localhost_login_wire \<noteq> []" by (simp add: localhost_login_wire_def)
  have "runs_alone lru_list (At_teardown s XDP_PASS) [sg_flow s] XDP_PASS [sg_flow s]"
    by (rule runs_alone.finish) (simp add: torn_down_def assms(3))
  then have "runs_alone lru_list (At_insert s) [] XDP_PASS [sg_flow s]"
    by (rule runs_alone.continue [rotated 2]) (simp_all add: lru_list_def max_entries_def)
  then have "runs_alone lru_list (At_lookup s) [] XDP_PASS [sg_flow s]"
    by (rule runs_alone.continue [rotated 2]) (simp_all add: lru_list_def assms(1))
  then show ?thesis
    by (rule runs_alone.continue [rotated 2]) (simp_all add: assms(1,2) ne)
qed

section \<open>Properties\<close>

text \<open>
  Cutting the program at its map calls loses nothing: on a segment to port 25565, a task
  that is stepped to its end with the map to itself gives the action and leaves the table that
  one call of \<open>verdict\<close> gives and leaves, and nothing else.
\<close>

theorem verdict_is_task_alone:
  assumes "header_layout N" and "packet_ctx ctx bs" and "lru_laws ops keys"
    and "classify N bs = Inr s"
  shows "(\<exists>logs. verdict N ops ctx m = Inr (a, logs, m')) \<longleftrightarrow> runs_alone ops (At_syn s) m a m'"
  by (rule verdict_alone_iff [OF assms])

theorem verdict_is_task_alone_witness:
  "\<exists>logs. verdict rfc_headers lru_list (test_ctx localhost_login_wire) [] = Inr (XDP_PASS, logs, [test_flow])"
proof -
  let ?s = "\<lparr>sg_flow = test_flow, sg_syn = False, sg_teardown = False, sg_payload = localhost_login_wire\<rparr>"
  have "runs_alone lru_list (At_syn ?s) [] XDP_PASS [test_flow]"
    using login_runs_alone [of ?s] by simp
  with verdict_is_task_alone [OF rfc_headers_layout tcp_frame_ctx lru.laws classify_tcp_frame [OF rfc_headers_layout]]
  show ?thesis by (simp add: localhost_wire_length)
qed

end
