(* ===== verification/Calls.thy ===== *)
theory Calls
  imports Tasks
begin

text \<open>
  \<open>verdict\<close> (\<open>mc-sniffer-ebpf/src/main.rs\<close>) cut at its calls on \<open>ALLOWED_FLOWS\<close>, with nothing
  abstracted: \<open>verdict_head\<close> is the code up to the first call, a \<open>call\<close> its local variables from
  there on, and \<open>call_step\<close> the code from one call on the map to the next, with the handshake
  check on packet memory and the log lines in their places. \<open>drive\<close> takes the steps of one run
  one after another; it is \<open>verdict\<close>, on every input. \<open>stands_for\<close> relates the steps to the
  tasks of theory \<open>Tasks\<close>, which know a packet only by its segment.
\<close>

section \<open>The program from call to call\<close>

record call =
  cl_ctx :: xdp_context
  cl_tcp :: tcp_packet
  cl_flow :: flow_key
  cl_logs :: "log_event list"

datatype cpu =
    Free
  | Syn_check call             \<comment> \<open>before \<open>if tcp.flags.is_syn()\<close>\<close>
  | Lookup call                \<comment> \<open>before \<open>get_ptr\<close>\<close>
  | Insert call                \<comment> \<open>before \<open>insert\<close>\<close>
  | Teardown call xdp_action   \<comment> \<open>before \<open>if tcp.flags.is_fin() || ..\<close>\<close>

type_synonym verdict_event = "xdp_context \<times> xdp_action \<times> log_event list"

definition verdict_head ::
  "network_types \<Rightarrow> xdp_context \<Rightarrow> ((xdp_action \<times> log_event list) + call, unit) outcome" where
  \<comment> \<open>an early return on the left, the local variables before the first map call on the right\<close>
  "verdict_head N ctx =
     (let logs = [Packet_received] in
      match_result (check_header N ctx)
        (\<lambda>action. Inr (Inl (action, logs @ [Ethernet_check (format_action action)]))) (\<lambda>_.
      match_result (ipv4_try_parse N ctx)
        (\<lambda>action. Inr (Inl (action, logs @ [Ipv4_check (format_action action)]))) (\<lambda>ipv4.
      let logs = logs @ [Parsed_ipv4 (ip4_source_address ipv4) (ip4_source_port ipv4)
            (ip4_destination_address ipv4) (ip4_destination_port ipv4) (ip4_total_size ipv4)] in
      if ip4_destination_port ipv4 \<noteq> MINECRAFT_PORT
      then Inr (Inl (XDP_PASS, logs @ [Skipping (ip4_source_address ipv4) (ip4_source_port ipv4)])) else
      match_result (tcp_try_parse N ctx)
        (\<lambda>action. Inr (Inl (action, logs @ [Tcp_check (format_action action)]))) (\<lambda>tcp.
      let logs = logs @ [Parsed_tcp (tp_source_port tcp) (tp_destination_port tcp)];
          flow = \<lparr>fk_source_address = ip4_source_address ipv4,
                  fk_destination_address = ip4_destination_address ipv4,
                  fk_source_port = ip4_source_port ipv4,
                  fk_destination_port = ip4_destination_port ipv4\<rparr>
      in Inr (Inr \<lparr>cl_ctx = ctx, cl_tcp = tcp, cl_flow = flow, cl_logs = logs\<rparr>)))))"

definition log_line :: "(u32 \<Rightarrow> u16 \<Rightarrow> log_event) \<Rightarrow> call \<Rightarrow> call" where
  "log_line line c = c\<lparr>cl_logs := cl_logs c @
     [line (fk_source_address (cl_flow c)) (fk_source_port (cl_flow c))]\<rparr>"

fun call_step ::
  "(flow_key, 'm) lru_map \<Rightarrow> cpu \<Rightarrow> 'm \<Rightarrow> (cpu \<times> 'm \<times> verdict_event option, unit) outcome" where
  "call_step ops Free m = Inr (Free, m, None)"
| "call_step ops (Syn_check c) m =
     (let m = (if is_syn (tp_flags (cl_tcp c)) then snd (lru_remove ops m (cl_flow c)) else m)
      in if tp_payload_len (cl_tcp c) = 0 then Inr (Teardown c XDP_PASS, m, None)
         else Inr (Lookup c, m, None))"
| "call_step ops (Lookup c) m =
     (case lru_get_ptr ops m (cl_flow c) of (found, m) \<Rightarrow>
      if found \<noteq> None then Inr (Teardown c XDP_PASS, m, None) else
      match_result (check_handshake (cl_ctx c) (tp_payload_offset (cl_tcp c)) (tp_payload_len (cl_tcp c)))
        (\<lambda>_. Inr (Teardown (log_line Dropping c) XDP_DROP, m, None))
        (\<lambda>_. Inr (Insert c, m, None)))"
| "call_step ops (Insert c) m =
     (case lru_insert ops m (cl_flow c) 0 0 of (inserted, m) \<Rightarrow>
      let c = (if isl inserted then log_line Failed_to_remember c else c)
      in Inr (Teardown (log_line Valid_handshake c) XDP_PASS, m, None))"
| "call_step ops (Teardown c action) m =
     (let m = (if is_fin (tp_flags (cl_tcp c)) \<or> is_rst (tp_flags (cl_tcp c))
               then snd (lru_remove ops m (cl_flow c)) else m)
      in Inr (Free, m, Some (cl_ctx c, action, cl_logs c)))"

fun drive :: "nat \<Rightarrow> (flow_key, 'm) lru_map \<Rightarrow> cpu \<Rightarrow> 'm \<Rightarrow> 'm result option" where
  \<comment> \<open>at most so many steps of one run, nothing else touching the map\<close>
  "drive 0 ops c m = None"
| "drive (Suc n) ops c m = (case call_step ops c m of
      Inl e \<Rightarrow> Some (Inl e)
    | Inr (c', m', None) \<Rightarrow> drive n ops c' m'
    | Inr (c', m', Some (ctx, action, logs)) \<Rightarrow> Some (Inr (action, logs, m')))"

definition verdict_by_calls ::
  "network_types \<Rightarrow> (flow_key, 'm) lru_map \<Rightarrow> xdp_context \<Rightarrow> 'm \<Rightarrow> 'm result option" where
  "verdict_by_calls N ops ctx m = (case verdict_head N ctx of
      Inl e \<Rightarrow> Some (Inl e)
    | Inr (Inl (action, logs)) \<Rightarrow> Some (Inr (action, logs, m))
    | Inr (Inr c) \<Rightarrow> drive 4 ops (Syn_check c) m)"

lemma drive_teardown:
  "drive (Suc n) ops (Teardown c a) m = Some (Inr (a, cl_logs c,
     if is_fin (tp_flags (cl_tcp c)) \<or> is_rst (tp_flags (cl_tcp c))
     then snd (lru_remove ops m (cl_flow c)) else m))"
  by (simp add: Let_def)

lemma log_line_simps [simp]:
  "cl_ctx (log_line l c) = cl_ctx c" "cl_tcp (log_line l c) = cl_tcp c" "cl_flow (log_line l c) = cl_flow c"
  "cl_logs (log_line l c) = cl_logs c @ [l (fk_source_address (cl_flow c)) (fk_source_port (cl_flow c))]"
  by (simp_all add: log_line_def)

lemma drive_lookup:
  assumes "tp_payload_len (cl_tcp c) \<noteq> 0"
  shows "drive (Suc (Suc (Suc n))) ops (Lookup c) m =
   Some (and_then (judge ops (cl_ctx c) (cl_tcp c) (cl_flow c) (cl_logs c) m)
     (\<lambda>(action, logs, m). Inr (action, logs,
        if is_fin (tp_flags (cl_tcp c)) \<or> is_rst (tp_flags (cl_tcp c))
        then snd (lru_remove ops m (cl_flow c)) else m)))"
proof -
  obtain found m1 where g: "lru_get_ptr ops m (cl_flow c) = (found, m1)" by fastforce
  obtain inserted m2 where i: "lru_insert ops m1 (cl_flow c) 0 0 = (inserted, m2)" by fastforce
  note d = drive.simps(2) [of "Suc (Suc n)" ops "Lookup c"] drive.simps(2) [of "Suc n" ops "Insert c"] drive_teardown
  show ?thesis
  proof (cases "found \<noteq> None")
    case True
    with g assms show ?thesis
      by (simp only: d) (simp add: drive_teardown judge_def del: drive.simps)
  next
    case False
    with g i assms show ?thesis
      by (cases "check_handshake (cl_ctx c) (tp_payload_offset (cl_tcp c)) (tp_payload_len (cl_tcp c))" rule: outcome_cases)
         (simp_all add: d drive_teardown judge_def match_result_def Let_def del: drive.simps)
  qed
qed

lemma drive_judge:
  "drive 4 ops (Syn_check c) m =
   Some (and_then (judge ops (cl_ctx c) (cl_tcp c) (cl_flow c) (cl_logs c)
       (if is_syn (tp_flags (cl_tcp c)) then snd (lru_remove ops m (cl_flow c)) else m))
     (\<lambda>(action, logs, m). Inr (action, logs,
        if is_fin (tp_flags (cl_tcp c)) \<or> is_rst (tp_flags (cl_tcp c))
        then snd (lru_remove ops m (cl_flow c)) else m)))"
proof -
  have "drive 4 ops (Syn_check c) m = (let m = (if is_syn (tp_flags (cl_tcp c)) then snd (lru_remove ops m (cl_flow c)) else m)
      in if tp_payload_len (cl_tcp c) = 0 then drive 3 ops (Teardown c XDP_PASS) m else drive 3 ops (Lookup c) m)"
    by (simp add: numeral_eq_Suc Let_def del: drive.simps(2) add: drive.simps(2) [of _ _ "Syn_check c"])
  then show ?thesis
    by (cases "tp_payload_len (cl_tcp c) = 0")
       (simp_all add: drive_lookup [where n = 0] drive_teardown judge_def Let_def numeral_3_eq_3 del: drive.simps)
qed

lemma verdict_by_calls_eq: "verdict_by_calls N ops ctx m = Some (verdict N ops ctx m)"
proof (cases "check_header N ctx" rule: outcome_cases)
  case (Inr u)
  show ?thesis
  proof (cases "ipv4_try_parse N ctx" rule: outcome_cases)
    case ip: (Inr ipv4)
    show ?thesis
      by (cases "tcp_try_parse N ctx" rule: outcome_cases)
         (simp_all add: Inr ip verdict_by_calls_def verdict_head_def verdict_def drive_judge Let_def cong: if_cong)
  qed (simp_all add: Inr verdict_by_calls_def verdict_head_def verdict_def Let_def)
qed (simp_all add: verdict_by_calls_def verdict_head_def verdict_def Let_def)

section \<open>Calls and tasks\<close>

text \<open>The bytes of a packet, read off its context.\<close>

definition ctx_bytes :: "xdp_context \<Rightarrow> bytes" where
  "ctx_bytes ctx = map (\<lambda>p. the (xdp_memory ctx p)) [xdp_data ctx..<xdp_data_end ctx]"

lemma packet_ctx_bytes: "packet_ctx ctx bs \<Longrightarrow> ctx_bytes ctx = bs"
  unfolding ctx_bytes_def packet_ctx_def by (elim conjE, intro nth_equalityI) simp_all

abbreviation real_packet :: "xdp_context \<Rightarrow> bool" where
  "real_packet ctx \<equiv> packet_ctx ctx (ctx_bytes ctx)"

abbreviation packet_segment :: "network_types \<Rightarrow> xdp_context \<Rightarrow> xdp_action + flow_segment" where
  "packet_segment N ctx \<equiv> classify N (ctx_bytes ctx)"

lemma real_packetI: "packet_ctx ctx bs \<Longrightarrow> real_packet ctx"
  by (simp add: packet_ctx_bytes)

definition carries :: "network_types \<Rightarrow> call \<Rightarrow> flow_segment \<Rightarrow> bool" where
  "carries N c s \<longleftrightarrow> real_packet (cl_ctx c) \<and> packet_segment N (cl_ctx c) = Inr s \<and>
     cl_tcp c = tcp_of_frame N (ctx_bytes (cl_ctx c)) \<and> cl_flow c = sg_flow s"

lemma carries_log_line [simp]: "carries N (log_line l c) s = carries N c s"
  by (simp add: carries_def)

fun stands_for :: "network_types \<Rightarrow> cpu \<Rightarrow> task \<Rightarrow> bool" where
  "stands_for N Free t \<longleftrightarrow> t = Idle"
| "stands_for N (Syn_check c) t \<longleftrightarrow> (\<exists>s. t = At_syn s \<and> carries N c s)"
| "stands_for N (Lookup c) t \<longleftrightarrow> (\<exists>s. t = At_lookup s \<and> carries N c s)"
| "stands_for N (Insert c) t \<longleftrightarrow> (\<exists>s. t = At_insert s \<and> carries N c s)"
| "stands_for N (Teardown c a) t \<longleftrightarrow> (\<exists>s. t = At_teardown s a \<and> carries N c s)"

lemma carries_fields:
  assumes "carries N c s"
  shows "is_syn (tp_flags (cl_tcp c)) = sg_syn s"
    and "is_fin (tp_flags (cl_tcp c)) \<or> is_rst (tp_flags (cl_tcp c)) \<longleftrightarrow> sg_teardown s"
    and "tp_payload_len (cl_tcp c) = 0 \<longleftrightarrow> sg_payload s = []"
    and "check_handshake (cl_ctx c) (tp_payload_offset (cl_tcp c)) (tp_payload_len (cl_tcp c)) =
      (if is_handshake (sg_payload s) then Inr () else Inl (Throw XDP_DROP))"
    and "cl_flow c = sg_flow s" and "packet_segment N (cl_ctx c) = Inr s"
proof -
  let ?bs = "ctx_bytes (cl_ctx c)"
  from assms have p: "packet_ctx (cl_ctx c) ?bs" and acc: "tcp_acceptable ?bs"
    and s: "s = segment_of_frame N ?bs" and t: "cl_tcp c = tcp_of_frame N ?bs"
    by (auto simp: carries_def classify_def split: if_splits)
  show "is_syn (tp_flags (cl_tcp c)) = sg_syn s"
    and "is_fin (tp_flags (cl_tcp c)) \<or> is_rst (tp_flags (cl_tcp c)) \<longleftrightarrow> sg_teardown s"
    by (simp_all add: s t segment_of_frame_def Let_def)
  show "tp_payload_len (cl_tcp c) = 0 \<longleftrightarrow> sg_payload s = []"
    using payload_length [OF acc, of N] by (simp add: s t flip: length_0_conv)
  show "check_handshake (cl_ctx c) (tp_payload_offset (cl_tcp c)) (tp_payload_len (cl_tcp c)) =
      (if is_handshake (sg_payload s) then Inr () else Inl (Throw XDP_DROP))"
    unfolding s t by (rule check_payload [OF p acc])
qed (use assms in \<open>simp_all add: carries_def\<close>)

definition event_of :: "network_types \<Rightarrow> verdict_event option \<Rightarrow> (flow_segment \<times> xdp_action) option \<Rightarrow> bool" where
  "event_of N e e' = (case e of None \<Rightarrow> e' = None
     | Some (ctx, a, logs) \<Rightarrow> (\<exists>s. e' = Some (s, a) \<and> packet_segment N ctx = Inr s))"

lemma call_step_task:
  assumes "stands_for N c t" and "task_step ops t m = (t', m', e')"
  shows "\<exists>c' e. call_step ops c m = Inr (c', m', e) \<and> stands_for N c' t' \<and> event_of N e e'"
proof (cases c)
  case Free
  with assms show ?thesis by (auto simp: event_of_def)
next
  case (Syn_check k)
  with assms(1) obtain s where s: "t = At_syn s" "carries N k s" by auto
  with assms(2) Syn_check show ?thesis
    by (auto simp: carries_fields [OF s(2)] event_of_def Let_def)
next
  case (Lookup k)
  with assms(1) obtain s where s: "t = At_lookup s" "carries N k s" by auto
  with assms(2) Lookup show ?thesis
    by (auto simp: carries_fields [OF s(2)] event_of_def split: prod.splits)
next
  case (Insert k)
  with assms(1) obtain s where s: "t = At_insert s" "carries N k s" by auto
  with assms(2) Insert show ?thesis
    by (auto simp: carries_fields [OF s(2)] event_of_def Let_def split: prod.splits)
next
  case (Teardown k a)
  with assms(1) obtain s where s: "t = At_teardown s a" "carries N k s" by auto
  with assms(2) Teardown show ?thesis
    by (auto simp: carries_fields [OF s(2)] torn_down_def event_of_def Let_def)
qed

lemma verdict_head_settled:
  assumes N: "header_layout N" and p: "packet_ctx ctx bs" and c: "classify N bs = Inl a"
  shows "\<exists>logs. verdict_head N ctx = Inr (Inl (a, logs))"
proof (cases "length bs < 14 \<or> u16_from_be_bytes [bs ! 12, bs ! 13] \<noteq> 0x0800")
  case True
  with c show ?thesis
    by (auto simp: classify_def verdict_head_def check_header_eq [OF N p] Let_def split: if_splits)
next
  case eth: False
  then have e: "check_header N ctx = Inr ()"
    by (simp add: check_header_eq [OF N p])
  show ?thesis
  proof (cases "ipv4_acceptable bs")
    case False
    with c e eth show ?thesis
      by (simp add: classify_def verdict_head_def ipv4_try_parse_cases [OF N p] Let_def)
  next
    case True
    with c eth have "ip4_destination_port (ipv4_of_frame bs) \<noteq> 25565 \<and> a = XDP_PASS \<or>
        ip4_destination_port (ipv4_of_frame bs) = 25565 \<and> a = XDP_DROP \<and> \<not> tcp_acceptable bs"
      by (auto simp: classify_def split: if_splits)
    with e True show ?thesis
      by (auto simp: verdict_head_def ipv4_try_parse_cases [OF N p] tcp_try_parse_drop [OF N p True]
          MINECRAFT_PORT_def Let_def)
  qed
qed

lemma verdict_head_judged:
  assumes N: "header_layout N" and p: "packet_ctx ctx bs" and c: "classify N bs = Inr s"
  shows "\<exists>k. verdict_head N ctx = Inr (Inr k) \<and> cl_ctx k = ctx \<and> carries N k s"
proof -
  from c have i: "14 \<le> length bs" "u16_from_be_bytes [bs ! 12, bs ! 13] = 0x0800" "ipv4_acceptable bs"
    "ip4_destination_port (ipv4_of_frame bs) = 25565" "tcp_acceptable bs" "s = segment_of_frame N bs"
    by (auto simp: classify_def split: if_splits)
  have e: "check_header N ctx = Inr ()"
    using i by (simp add: check_header_eq [OF N p])
  have ip: "ipv4_try_parse N ctx = Inr (ipv4_of_frame bs)" and tcp: "tcp_try_parse N ctx = Inr (tcp_of_frame N bs)"
    using i by (simp_all add: ipv4_try_parse_Inr [OF N p] tcp_try_parse_Inr [OF N p])
  note b = packet_ctx_bytes [OF p]
  show ?thesis
    using i(4) p c by (simp add: verdict_head_def e ip tcp MINECRAFT_PORT_def Let_def carries_def b)
      (simp add: i(6) segment_of_frame_def Let_def)
qed

end
