(* ===== verification/Concurrent.thy ===== *)
theory Concurrent
  imports Tasks
begin

text \<open>
  The XDP program on many CPUs. A \<open>system\<close> is a task per CPU, the shared table and the segments
  that have arrived; \<open>system_step\<close> moves one CPU by one map call, in any order. \<open>serial\<close> is the
  discipline of a receive-side hash on the 4-tuple: no packet is taken while another of its flow
  is in progress. The first invariant holds for every interleaving, the second under
  \<open>serial\<close>, where it gives each flow the guarantee of a sequential run.
\<close>

section \<open>The system\<close>

definition busy_with :: "task \<Rightarrow> flow_key \<Rightarrow> bool" where
  "busy_with t f \<longleftrightarrow> (case task_segment t of None \<Rightarrow> False | Some s \<Rightarrow> sg_flow s = f)"

record 'm system =
  sys_cpus :: "nat \<Rightarrow> task"
  sys_table :: 'm
  sys_arrived :: "flow_segment list"  \<comment> \<open>newest first\<close>

type_synonym system_event = "(flow_segment \<times> xdp_action) option"

definition boot :: "'m \<Rightarrow> 'm system" where
  "boot m = \<lparr>sys_cpus = \<lambda>_. Idle, sys_table = m, sys_arrived = []\<rparr>"

definition arrived_on :: "nat \<Rightarrow> flow_segment \<Rightarrow> 'm system \<Rightarrow> 'm system" where
  "arrived_on i s x = x\<lparr>sys_cpus := (sys_cpus x)(i := At_syn s), sys_arrived := s # sys_arrived x\<rparr>"

definition advanced :: "nat \<Rightarrow> task \<Rightarrow> 'm \<Rightarrow> 'm system \<Rightarrow> 'm system" where
  "advanced i t m x = x\<lparr>sys_cpus := (sys_cpus x)(i := t), sys_table := m\<rparr>"

inductive system_step ::
  "bool \<Rightarrow> (flow_key, 'm) lru_map \<Rightarrow> 'm system \<Rightarrow> nat \<Rightarrow> system_event \<Rightarrow> 'm system \<Rightarrow> bool"
  for serial :: bool and ops :: "(flow_key, 'm) lru_map" where
  arrive: "sys_cpus x i = Idle \<Longrightarrow> (serial \<Longrightarrow> \<forall>j. \<not> busy_with (sys_cpus x j) (sg_flow s)) \<Longrightarrow>
    system_step serial ops x i None (arrived_on i s x)"
| advance: "sys_cpus x i \<noteq> Idle \<Longrightarrow> task_step ops (sys_cpus x i) (sys_table x) = (t, m, e) \<Longrightarrow>
    system_step serial ops x i e (advanced i t m x)"

inductive_cases system_stepE [consumes 1, case_names arrive advance]: "system_step serial ops x i e y"

inductive system_run ::
  "bool \<Rightarrow> (flow_key, 'm) lru_map \<Rightarrow> 'm system \<Rightarrow> (nat \<times> system_event) list \<Rightarrow> 'm system \<Rightarrow> bool"
  for serial :: bool and ops :: "(flow_key, 'm) lru_map" where
  stop: "system_run serial ops x [] x"
| step: "system_step serial ops x i e y \<Longrightarrow> system_run serial ops y tr z \<Longrightarrow>
    system_run serial ops x ((i, e) # tr) z"

lemmas system_defs = arrived_on_def advanced_def

lemma cpus_simps [simp]:
  "sys_cpus (arrived_on i s x) = (sys_cpus x)(i := At_syn s)"
  "sys_cpus (advanced i t m x) = (sys_cpus x)(i := t)"
  "sys_table (arrived_on i s x) = sys_table x" "sys_table (advanced i t m x) = m"
  "sys_arrived (arrived_on i s x) = s # sys_arrived x" "sys_arrived (advanced i t m x) = sys_arrived x"
  "sys_cpus (boot m) i = Idle" "sys_table (boot m) = m" "sys_arrived (boot m) = []"
  by (simp_all add: system_defs boot_def)

lemma system_run_invariant:
  assumes "\<And>x i e y. P x \<Longrightarrow> system_step serial ops x i e y \<Longrightarrow> P y"
  shows "system_run serial ops x tr y \<Longrightarrow> P x \<Longrightarrow> P y"
  by (induction rule: system_run.induct) (auto intro: assms)

lemma system_run_snocE:
  assumes "system_run serial ops x (tr @ [(i, e)]) z"
  obtains y where "system_run serial ops x tr y" and "system_step serial ops y i e z"
proof -
  have "system_run serial ops x tr' z \<Longrightarrow> tr' = tr @ [(i, e)] \<Longrightarrow>
      \<exists>y. system_run serial ops x tr y \<and> system_step serial ops y i e z" for tr'
  proof (induction arbitrary: tr rule: system_run.induct)
    case (step x j e' y tr1 z)
    show ?case
    proof (cases tr)
      case Nil
      with step.prems step.hyps have "z = y" by (auto elim: system_run.cases)
      with Nil step.prems step.hyps(1) show ?thesis by (auto intro: system_run.stop)
    next
      case (Cons p tr2)
      with step.IH [of tr2] step.prems obtain y1 where
        "system_run serial ops y tr2 y1" "system_step serial ops y1 i e z" by auto
      with Cons step.prems system_run.step [OF step.hyps(1)] show ?thesis by auto
    qed
  qed simp
  with assms that show thesis by blast
qed

text \<open>A CPU's action comes from its task at the last call.\<close>

lemma event_from_teardown:
  "task_step ops t m = (t', m', Some (s, a)) \<Longrightarrow> t = At_teardown s a"
  by (cases t) (auto split: prod.splits)

lemma step_event:
  "system_step serial ops x i (Some (s, a)) y \<Longrightarrow> sys_cpus x i = At_teardown s a"
  by (erule system_stepE) (simp_all add: event_from_teardown)

section \<open>Any interleaving: no handshake, no data\<close>

definition shown :: "flow_key \<Rightarrow> flow_segment list \<Rightarrow> bool" where
  \<comment> \<open>some segment of the flow carried a handshake\<close>
  "shown f h \<longleftrightarrow> (\<exists>s \<in> set h. sg_flow s = f \<and> is_handshake (sg_payload s))"

lemma shown_Cons: "shown f (s # h) \<longleftrightarrow> sg_flow s = f \<and> is_handshake (sg_payload s) \<or> shown f h"
  by (auto simp: shown_def)

fun task_shown :: "flow_segment list \<Rightarrow> task \<Rightarrow> bool" where
  "task_shown h Idle \<longleftrightarrow> True"
| "task_shown h (At_syn s) \<longleftrightarrow> s \<in> set h"
| "task_shown h (At_lookup s) \<longleftrightarrow> s \<in> set h"
| "task_shown h (At_insert s) \<longleftrightarrow> s \<in> set h \<and> is_handshake (sg_payload s)"
| "task_shown h (At_teardown s a) \<longleftrightarrow> s \<in> set h \<and>
     (a = XDP_PASS \<longrightarrow> sg_payload s = [] \<or> shown (sg_flow s) h)"

definition interleaving_inv :: "('m \<Rightarrow> flow_key set) \<Rightarrow> 'm system \<Rightarrow> bool" where
  "interleaving_inv keys x \<longleftrightarrow>
     (\<forall>f \<in> keys (sys_table x). shown f (sys_arrived x)) \<and>
     (\<forall>i. task_shown (sys_arrived x) (sys_cpus x i))"

lemma task_shown_Cons: "task_shown h t \<Longrightarrow> task_shown (s # h) t"
  by (cases t) (auto simp: shown_Cons)

lemma task_step_shown:
  assumes t: "flow_table ops keys" and k: "\<forall>f \<in> keys m. shown f h" and "task_shown h task"
    and st: "task_step ops task m = (task', m', e)"
  shows "(\<forall>f \<in> keys m'. shown f h) \<and> task_shown h task'"
proof (cases task)
  case (At_syn s)
  with assms show ?thesis by (auto simp: flow_table.remove [OF t] split: if_splits)
next
  case (At_lookup s)
  with assms show ?thesis
    using flow_table.get_ptr [OF t, of m "sg_flow s"] by (auto split: prod.splits if_splits)
next
  case (At_insert s)
  with assms have "shown (sg_flow s) h" by (auto simp: shown_def)
  with At_insert assms show ?thesis
    using flow_table.insert_subset [OF t, of m "sg_flow s" 0 0] by auto
next
  case (At_teardown s a)
  with assms show ?thesis by (auto simp: torn_down_def flow_table.remove [OF t] split: if_splits)
qed (use assms in simp)

lemma interleaving_inv_step:
  assumes "flow_table ops keys" and "interleaving_inv keys x" and "system_step serial ops x i e y"
  shows "interleaving_inv keys y"
  using assms(3)
proof (cases rule: system_stepE)
  case (arrive s)
  with assms(2) show ?thesis
    by (auto simp: interleaving_inv_def shown_Cons task_shown_Cons)
next
  case (advance t m)
  have "(\<forall>f \<in> keys m. shown f (sys_arrived x)) \<and> task_shown (sys_arrived x) t"
    using assms(2) by (intro task_step_shown [OF assms(1) _ _ advance(3)]) (simp_all add: interleaving_inv_def)
  with assms(2) advance(1) show ?thesis by (simp add: interleaving_inv_def)
qed

lemma interleaving_inv_boot: "keys m = {} \<Longrightarrow> interleaving_inv keys (boot m)"
  by (simp add: interleaving_inv_def)

lemma run_interleaving_inv:
  assumes "flow_table ops keys" and "keys m = {}" and "system_run serial ops (boot m) tr x"
  shows "interleaving_inv keys x"
  by (rule system_run_invariant [where P = "interleaving_inv keys", OF _ assms(3)])
     (rule interleaving_inv_step [OF assms(1)], assumption+, rule interleaving_inv_boot, rule assms(2))

lemma finished_shown:
  assumes "interleaving_inv keys x" and "system_step serial ops x i (Some (s, XDP_PASS)) y"
  shows "sg_payload s = [] \<or> shown (sg_flow s) (sys_arrived x)"
proof -
  have "task_shown (sys_arrived x) (sys_cpus x i)"
    using assms(1) by (simp add: interleaving_inv_def)
  with step_event [OF assms(2)] show ?thesis by simp
qed

section \<open>Progress\<close>

lemma step_other_cpu:
  "system_step serial ops x i e y \<Longrightarrow> j \<noteq> i \<Longrightarrow> sys_cpus y j = sys_cpus x j"
  by (erule system_stepE) simp_all

lemma step_busy_cpu:
  assumes "system_step serial ops x i e y" and "task_segment (sys_cpus x i) = Some s"
  shows "e = None \<and> task_segment (sys_cpus y i) = Some s \<and> calls_left (sys_cpus y i) < calls_left (sys_cpus x i) \<or>
    (\<exists>a. e = Some (s, a))"
  using assms(1)
proof (cases rule: system_stepE)
  case (advance t m)
  with task_step_progress [OF advance(3) assms(2)] show ?thesis by auto
qed (use assms(2) in simp)

lemma busy_cpu_enabled:
  assumes "task_segment (sys_cpus x i) = Some s"
  shows "\<exists>e y. system_step serial ops x i e y"
proof -
  obtain t m e where "task_step ops (sys_cpus x i) (sys_table x) = (t, m, e)" by (metis prod_cases3)
  moreover have "sys_cpus x i \<noteq> Idle" using assms by auto
  ultimately show ?thesis by (blast intro: system_step.advance)
qed

lemma run_finishes:
  "system_run serial ops x tr y \<Longrightarrow> task_segment (sys_cpus x i) = Some s \<Longrightarrow>
    calls_left (sys_cpus x i) \<le> length (filter (\<lambda>(j, e). j = i) tr) \<Longrightarrow> \<exists>a. (i, Some (s, a)) \<in> set tr"
proof (induction rule: system_run.induct)
  case (stop x)
  then show ?case by (cases "sys_cpus x i") simp_all
next
  case (step x j e y tr z)
  show ?case
  proof (cases "j = i")
    case True
    from step_busy_cpu [of serial ops x i e y s] step.hyps(1) step.prems(1) True consider
      "\<exists>a. e = Some (s, a)"
      | "task_segment (sys_cpus y i) = Some s" "calls_left (sys_cpus y i) < calls_left (sys_cpus x i)" by blast
    then show ?thesis
    proof cases
      case 2
      with step.IH step.prems(2) True show ?thesis by auto
    qed (use True in auto)
  next
    case False
    with step_other_cpu [OF step.hyps(1), of i] step.IH step.prems show ?thesis by auto
  qed
qed

lemma calls_left_le: "calls_left t \<le> 4"
  by (cases t) simp_all

section \<open>A task that is not interfered with\<close>

lemma alone_steps:
  "runs_alone ops t m a m' \<Longrightarrow> sys_cpus x i = t \<Longrightarrow> sys_table x = m \<Longrightarrow> task_segment t = Some s \<Longrightarrow>
    \<exists>tr x1. system_run serial ops x tr x1 \<and> sys_arrived x1 = sys_arrived x \<and> fst ` set tr \<subseteq> {i} \<and>
      system_step serial ops x1 i (Some (s, a)) (advanced i Idle m' x)"
proof (induction arbitrary: x rule: runs_alone.induct)
  case (finish t m t' m' s' a)
  then have "s' = s" "t' = Idle" using task_step_progress [OF finish.hyps, of s] by auto
  with finish have "system_step serial ops x i (Some (s, a)) (advanced i Idle m' x)"
    by (intro system_step.advance) auto
  with system_run.stop show ?case by fastforce
next
  case (continue t m t' m' a m'')
  have seg: "task_segment t' = Some s"
    using task_step_progress [OF continue.hyps(1) continue.prems(3)] by simp
  have st: "system_step serial ops x i None (advanced i t' m' x)"
    using continue by (intro system_step.advance) simp_all
  from continue.IH [OF _ _ seg, of "advanced i t' m' x"] obtain tr x1 where
    r: "system_run serial ops (advanced i t' m' x) tr x1" "sys_arrived x1 = sys_arrived x" "fst ` set tr \<subseteq> {i}"
    "system_step serial ops x1 i (Some (s, a)) (advanced i Idle m'' (advanced i t' m' x))" by auto
  have "advanced i Idle m'' (advanced i t' m' x) = advanced i Idle m'' x"
    by (simp add: advanced_def)
  with r system_run.step [OF st r(1)] show ?case
    by (intro exI [of _ "(i, None) # tr"] exI [of _ x1]) simp
qed

lemma arrival_alone:
  assumes "\<And>j. sys_cpus x j = Idle" and "runs_alone ops (At_syn s) (sys_table x) a m'"
  shows "\<exists>tr x1 y. system_run serial ops x tr x1 \<and> sys_arrived x1 = s # sys_arrived x \<and> fst ` set tr \<subseteq> {i} \<and>
    system_step serial ops x1 i (Some (s, a)) y \<and> (\<forall>j. sys_cpus y j = Idle) \<and> sys_table y = m' \<and>
    sys_arrived y = s # sys_arrived x"
proof -
  have st: "system_step serial ops x i None (arrived_on i s x)"
    by (rule system_step.arrive) (simp_all add: assms(1) busy_with_def)
  from alone_steps [OF assms(2), where x = "arrived_on i s x" and i = i and s = s and serial = serial] obtain tr x1 where
    "system_run serial ops (arrived_on i s x) tr x1" "sys_arrived x1 = s # sys_arrived x" "fst ` set tr \<subseteq> {i}"
    "system_step serial ops x1 i (Some (s, a)) (advanced i Idle m' (arrived_on i s x))" by auto
  with system_run.step [OF st] assms(1) show ?thesis
    by (intro exI [of _ "(i, None) # tr"] exI [of _ x1] exI [of _ "advanced i Idle m' (arrived_on i s x)"]) simp
qed

section \<open>Properties\<close>

text \<open>
  With any number of CPUs and any interleaving of their calls on the shared table, whatever
  it evicts, a CPU passes data only of a flow some segment of which, already received, carried
  a handshake. No race lets a client in that never showed one.
\<close>

theorem concurrent_data_was_shown:
  assumes "lru_laws ops keys" and "keys m = {}" and "system_run serial ops (boot m) tr x"
    and "system_step serial ops x i (Some (s, XDP_PASS)) y" and "sg_payload s \<noteq> []"
  shows "\<exists>s' \<in> set (sys_arrived x). sg_flow s' = sg_flow s \<and> is_handshake (sg_payload s')"
  using finished_shown [OF run_interleaving_inv [OF flow_table.intro [OF assms(1)] assms(2,3)] assms(4)] assms(5)
  by (simp add: shown_def)

theorem concurrent_data_was_shown_witness:
  "\<exists>x y. system_step False lru_list x 7 (Some
     (\<lparr>sg_flow = test_flow, sg_syn = False, sg_teardown = False, sg_payload = localhost_login_wire\<rparr>, XDP_PASS)) y \<and>
     (\<exists>s' \<in> set (sys_arrived x). sg_flow s' = test_flow \<and> is_handshake (sg_payload s'))"
proof -
  let ?s = "\<lparr>sg_flow = test_flow, sg_syn = False, sg_teardown = False, sg_payload = localhost_login_wire\<rparr>"
  have ne: "localhost_login_wire \<noteq> []" by (simp add: localhost_login_wire_def)
  have "runs_alone lru_list (At_syn ?s) (sys_table (boot [])) XDP_PASS [test_flow]"
    using login_runs_alone [of ?s] by simp
  from arrival_alone [OF _ this, where serial = False and i = 7] obtain tr x y where
    r: "system_run False lru_list (boot []) tr x" and st: "system_step False lru_list x 7 (Some (?s, XDP_PASS)) y"
    by auto
  from concurrent_data_was_shown [OF lru.laws _ r st] st ne show ?thesis by auto
qed

text \<open>
  Every packet gets its action. A CPU in the middle of a packet is never blocked, and once it
  has taken four more steps its packet has an action, whatever the other CPUs do in between and
  whatever the table answers.
\<close>

theorem packets_get_actions:
  assumes "task_segment (sys_cpus x i) = Some s"
  shows "(\<exists>e y. system_step serial ops x i e y) \<and>
    (\<forall>tr y. system_run serial ops x tr y \<and> 4 \<le> length (filter (\<lambda>(j, e). j = i) tr) \<longrightarrow>
       (\<exists>a. (i, Some (s, a)) \<in> set tr))"
proof -
  have "calls_left (sys_cpus x i) \<le> 4" by (rule calls_left_le)
  then show ?thesis
    using busy_cpu_enabled [OF assms, of serial ops] run_finishes [OF _ assms, of serial ops]
    by (meson order_trans)
qed

theorem packets_get_actions_witness:
  "\<exists>e y. system_step False lru_list (arrived_on 3
     \<lparr>sg_flow = test_flow, sg_syn = True, sg_teardown = False, sg_payload = []\<rparr> (boot [])) 3 e y"
  using packets_get_actions [of "arrived_on 3
     \<lparr>sg_flow = test_flow, sg_syn = True, sg_teardown = False, sg_payload = []\<rparr> (boot [])" 3
     "\<lparr>sg_flow = test_flow, sg_syn = True, sg_teardown = False, sg_payload = []\<rparr>" False lru_list]
  by simp

end
