(* ===== verification/Serial_Flows.thy ===== *)
theory Serial_Flows
  imports Concurrent
begin

text \<open>
  The concurrent system when the packets of a flow are handled one at a time. Each task in
  progress then holds the newest segment of its flow, and what it knows of the table is what a
  sequential run over the flow's segments would know: \<open>serial_inv\<close>. With \<open>exact\<close> the table has
  room, by the condition \<open>roomy_on\<close> on the history, and the knowledge is an equivalence.
\<close>

section \<open>What a task knows of its flow\<close>

definition tracks :: "bool \<Rightarrow> bool \<Rightarrow> bool \<Rightarrow> bool" where
  "tracks exact p q \<longleftrightarrow> (if exact then p = q else p \<longrightarrow> q)"

lemma tracks_trans: "tracks exact p q \<Longrightarrow> tracks exact q r \<Longrightarrow> tracks exact p r"
  by (simp add: tracks_def split: if_splits)

lemma tracks_refl [simp]: "tracks exact p p"
  by (simp add: tracks_def)

lemma tracks_False [simp]: "tracks exact False False"
  by (simp add: tracks_def)

definition own :: "flow_key \<Rightarrow> flow_segment list \<Rightarrow> flow_segment list" where
  "own f h = filter (\<lambda>s. sg_flow s = f) h"

lemma own_Cons: "own f (s # h) = (if sg_flow s = f then s # own f h else own f h)"
  by (simp add: own_def)

lemma opened_own: "opened f (own f h) = opened f h"
  by (induction h) (simp_all add: own_def)

abbreviation kept_open :: "flow_segment \<Rightarrow> flow_segment list \<Rightarrow> bool" where
  "kept_open s hs \<equiv> \<not> sg_syn s \<and> opened (sg_flow s) hs"

fun task_open :: "bool \<Rightarrow> flow_key set \<Rightarrow> flow_segment list \<Rightarrow> task \<Rightarrow> bool" where
  \<comment> \<open>a busy task's segment is the newest of its flow; \<open>hs\<close> is what the flow did before it\<close>
  "task_open exact S h Idle \<longleftrightarrow> True"
| "task_open exact S h (At_syn s) \<longleftrightarrow> (\<exists>hs. own (sg_flow s) h = s # hs \<and>
     tracks exact (sg_flow s \<in> S) (opened (sg_flow s) hs))"
| "task_open exact S h (At_lookup s) \<longleftrightarrow> (\<exists>hs. own (sg_flow s) h = s # hs \<and> sg_payload s \<noteq> [] \<and>
     tracks exact (sg_flow s \<in> S) (kept_open s hs))"
| "task_open exact S h (At_insert s) \<longleftrightarrow> (\<exists>hs. own (sg_flow s) h = s # hs \<and> is_handshake (sg_payload s))"
| "task_open exact S h (At_teardown s a) \<longleftrightarrow> (\<exists>hs. own (sg_flow s) h = s # hs \<and>
     tracks exact (sg_flow s \<in> S) (is_handshake (sg_payload s) \<or> kept_open s hs) \<and>
     tracks exact (a = XDP_PASS) (sg_payload s = [] \<or> is_handshake (sg_payload s) \<or> kept_open s hs) \<and>
     a \<in> {XDP_PASS, XDP_DROP})"

lemma task_open_mono:
  assumes "task_open exact S h t" and "task_segment t = Some s" and "own (sg_flow s) h' = own (sg_flow s) h"
    and "tracks exact (sg_flow s \<in> S') (sg_flow s \<in> S)"
  shows "task_open exact S' h' t"
  using assms(1-3) by (cases t) (auto intro: tracks_trans [OF assms(4)])

lemma at_syn_step:
  assumes t: "flow_table ops keys" and o: "task_open exact (keys m) h (At_syn s)"
    and st: "task_step ops (At_syn s) m = (task', m', e)"
  shows "\<exists>hs. own (sg_flow s) h = s # hs \<and> tracks exact (sg_flow s \<in> keys m') (kept_open s hs) \<and>
    task' = (if sg_payload s = [] then At_teardown s XDP_PASS else At_lookup s) \<and> keys m' - {sg_flow s} = keys m - {sg_flow s}"
proof -
  from o obtain hs where hs: "own (sg_flow s) h = s # hs" "tracks exact (sg_flow s \<in> keys m) (opened (sg_flow s) hs)"
    by auto
  from st have r: "task' = (if sg_payload s = [] then At_teardown s XDP_PASS else At_lookup s)"
    "m' = (if sg_syn s then snd (lru_remove ops m (sg_flow s)) else m)" by simp_all
  have "keys m' = (if sg_syn s then keys m - {sg_flow s} else keys m)"
    by (simp add: r flow_table.remove [OF t])
  with hs r(1) show ?thesis by (cases "sg_syn s") simp_all
qed

lemma task_step_open:
  assumes t: "flow_table ops keys" and l: "exact \<Longrightarrow> lru_room ops keys n \<and> fits n (keys m) (sg_flow s)"
    and o: "task_open exact (keys m) h task"
    and sg: "task_segment task = Some s" and st: "task_step ops task m = (task', m', e)"
  shows "(\<forall>g. g \<noteq> sg_flow s \<longrightarrow> tracks exact (g \<in> keys m') (g \<in> keys m)) \<and> task_open exact (keys m') h task' \<and>
    (task_segment task' = Some s \<or>
     task' = Idle \<and> tracks exact (sg_flow s \<in> keys m') (opened (sg_flow s) h))"
proof (cases task)
  case (At_syn s')
  with sg have "s' = s" by simp
  from at_syn_step [OF t o [unfolded At_syn] st [unfolded At_syn], unfolded this] obtain hs where
    hs: "own (sg_flow s) h = s # hs" "tracks exact (sg_flow s \<in> keys m') (kept_open s hs)"
      "task' = (if sg_payload s = [] then At_teardown s XDP_PASS else At_lookup s)"
      "keys m' - {sg_flow s} = keys m - {sg_flow s}" by blast
  from hs(4) have "g \<noteq> sg_flow s \<Longrightarrow> g \<in> keys m' \<longleftrightarrow> g \<in> keys m" for g by blast
  with hs(1-3) show ?thesis by (cases "sg_payload s = []") simp_all
next
  case (At_lookup s')
  obtain found m1 where g: "lru_get_ptr ops m (sg_flow s) = (found, m1)" by fastforce
  with flow_table.get_ptr [OF t, of m "sg_flow s"] have k: "found \<noteq> None \<longleftrightarrow> sg_flow s \<in> keys m" "keys m1 = keys m"
    by simp_all
  from At_lookup o sg obtain hs where hs: "s' = s" "own (sg_flow s) h = s # hs" "sg_payload s \<noteq> []"
    "tracks exact (sg_flow s \<in> keys m) (kept_open s hs)" by auto
  from At_lookup st g have r: "m' = m1" "task' = (if found \<noteq> None then At_teardown s XDP_PASS
      else if is_handshake (sg_payload s) then At_insert s else At_teardown s XDP_DROP)"
    by (simp_all add: hs(1))
  show ?thesis
    using hs k by (cases "found \<noteq> None"; cases "is_handshake (sg_payload s)"; cases exact) (simp_all add: r tracks_def)
next
  case (At_insert s')
  with sg have s: "s' = s" by simp
  from At_insert o obtain hs where hs: "own (sg_flow s) h = s # hs" "is_handshake (sg_payload s)" by (auto simp: s)
  from At_insert st have r: "task' = At_teardown s XDP_PASS" "m' = snd (lru_insert ops m (sg_flow s) 0 0)"
    by (auto simp: s)
  have "keys m' \<subseteq> insert (sg_flow s) (keys m)" and "exact \<Longrightarrow> keys m' = insert (sg_flow s) (keys m)"
    using flow_table.insert_subset [OF t] roomy_flow_table.insert_eq [OF roomy_tableI [OF t], of n m "sg_flow s" 0 0] l
    by (simp_all add: r(2))
  with hs show ?thesis by (cases exact) (auto simp: r(1) tracks_def)
next
  case (At_teardown s' a)
  with sg have s: "s' = s" by simp
  from At_teardown o obtain hs where hs: "own (sg_flow s) h = s # hs"
    "tracks exact (sg_flow s \<in> keys m) (is_handshake (sg_payload s) \<or> kept_open s hs)" by (auto simp: s)
  have o': "opened (sg_flow s) h \<longleftrightarrow> \<not> sg_teardown s \<and> (is_handshake (sg_payload s) \<or> kept_open s hs)"
    using opened_own [of "sg_flow s" h] hs(1) by simp
  from At_teardown st have r: "task' = Idle" "m' = torn_down ops s m" by (simp_all add: s)
  have "keys m' = (if sg_teardown s then keys m - {sg_flow s} else keys m)"
    by (simp add: r(2) torn_down_def flow_table.remove [OF t])
  with hs(2) show ?thesis by (cases "sg_teardown s") (simp_all add: r(1) o')
qed (use sg in simp)

section \<open>The invariant\<close>

definition serial_inv :: "bool \<Rightarrow> ('m \<Rightarrow> flow_key set) \<Rightarrow> 'm system \<Rightarrow> bool" where
  "serial_inv exact keys x \<longleftrightarrow>
     (\<forall>i j f. busy_with (sys_cpus x i) f \<and> busy_with (sys_cpus x j) f \<longrightarrow> i = j) \<and>
     (\<forall>f. (\<forall>i. \<not> busy_with (sys_cpus x i) f) \<longrightarrow> tracks exact (f \<in> keys (sys_table x)) (opened f (sys_arrived x))) \<and>
     (\<forall>i. task_open exact (keys (sys_table x)) (sys_arrived x) (sys_cpus x i))"

lemma busy_with_simps [simp]:
  "\<not> busy_with Idle f" "busy_with (At_syn s) f \<longleftrightarrow> sg_flow s = f"
  by (simp_all add: busy_with_def)

lemma busy_with_segment: "task_segment t = Some s \<Longrightarrow> busy_with t f \<longleftrightarrow> sg_flow s = f"
  by (simp add: busy_with_def)

lemma serial_invI:
  assumes "\<And>i j f. busy_with (sys_cpus x i) f \<Longrightarrow> busy_with (sys_cpus x j) f \<Longrightarrow> i = j"
    and "\<And>f. (\<And>i. \<not> busy_with (sys_cpus x i) f) \<Longrightarrow> tracks exact (f \<in> keys (sys_table x)) (opened f (sys_arrived x))"
    and "\<And>i. task_open exact (keys (sys_table x)) (sys_arrived x) (sys_cpus x i)"
  shows "serial_inv exact keys x"
  unfolding serial_inv_def using assms by blast

lemma serial_invD:
  assumes "serial_inv exact keys x"
  shows "busy_with (sys_cpus x i) f \<Longrightarrow> busy_with (sys_cpus x j) f \<Longrightarrow> i = j"
    and "(\<And>i. \<not> busy_with (sys_cpus x i) f) \<Longrightarrow> tracks exact (f \<in> keys (sys_table x)) (opened f (sys_arrived x))"
    and "task_open exact (keys (sys_table x)) (sys_arrived x) (sys_cpus x i)"
  using assms unfolding serial_inv_def by blast+

lemma not_busy_other:
  assumes "task_open exact S h t" and "\<not> busy_with t f" and "\<And>g. g \<noteq> f \<Longrightarrow> own g h' = own g h"
    and "\<And>g. g \<noteq> f \<Longrightarrow> tracks exact (g \<in> S') (g \<in> S)"
  shows "task_open exact S' h' t"
proof (cases "task_segment t")
  case None
  then show ?thesis by (cases t) simp_all
next
  case (Some s)
  with assms(2) have "sg_flow s \<noteq> f" by (simp add: busy_with_segment)
  from task_open_mono [OF assms(1) Some assms(3) [OF this] assms(4) [OF this]] show ?thesis .
qed

lemma serial_inv_arrive:
  assumes inv: "serial_inv exact keys x" and idle: "sys_cpus x i = Idle"
    and free: "\<forall>j. \<not> busy_with (sys_cpus x j) (sg_flow s)"
  shows "serial_inv exact keys (arrived_on i s x)" (is "serial_inv exact keys ?y")
proof (rule serial_invI)
  fix j
  show "task_open exact (keys (sys_table ?y)) (sys_arrived ?y) (sys_cpus ?y j)"
  proof (cases "j = i")
    case True
    from serial_invD(2) [OF inv, of "sg_flow s"] free True show ?thesis
      by (simp add: own_Cons opened_own)
  next
    case False
    have "task_open exact (keys (sys_table ?y)) (s # sys_arrived x) (sys_cpus x j)"
    proof (rule not_busy_other [OF serial_invD(3) [OF inv]])
      show "\<not> busy_with (sys_cpus x j) (sg_flow s)" using free by blast
    qed (simp_all add: own_Cons)
    with False show ?thesis by simp
  qed
next
  fix j k f
  assume "busy_with (sys_cpus ?y j) f" "busy_with (sys_cpus ?y k) f"
  with free serial_invD(1) [OF inv, of j f k] show "j = k"
    by (cases "j = i"; cases "k = i") auto
next
  fix f
  assume f: "\<And>j. \<not> busy_with (sys_cpus ?y j) f"
  from f [of i] have s: "sg_flow s \<noteq> f" by simp
  have "\<not> busy_with (sys_cpus x j) f" for j
    using f [of j] idle by (cases "j = i") simp_all
  with serial_invD(2) [OF inv, of f] s show "tracks exact (f \<in> keys (sys_table ?y)) (opened f (sys_arrived ?y))"
    by simp
qed

lemma serial_inv_advance:
  assumes t: "flow_table ops keys" and inv: "serial_inv exact keys x"
    and l: "\<And>s. exact \<Longrightarrow> task_segment (sys_cpus x i) = Some s \<Longrightarrow>
      lru_room ops keys n \<and> fits n (keys (sys_table x)) (sg_flow s)"
    and busy: "sys_cpus x i \<noteq> Idle"
    and st: "task_step ops (sys_cpus x i) (sys_table x) = (t', m', e)"
  shows "serial_inv exact keys (advanced i t' m' x)" (is "serial_inv exact keys ?y")
proof -
  from busy obtain s where sg: "task_segment (sys_cpus x i) = Some s"
    by (cases "sys_cpus x i") simp_all
  note step = task_step_open [OF t l [OF _ sg] serial_invD(3) [OF inv] sg st]
  have mine: "busy_with (sys_cpus x i) f \<longleftrightarrow> sg_flow s = f" for f
    by (rule busy_with_segment [OF sg])
  have t': "busy_with t' f \<Longrightarrow> sg_flow s = f" for f
    using step busy_with_segment [of t' s f] by auto
  show ?thesis
  proof (rule serial_invI)
    fix j
    show "task_open exact (keys (sys_table ?y)) (sys_arrived ?y) (sys_cpus ?y j)"
    proof (cases "j = i")
      case True
      with step show ?thesis by simp
    next
      case False
      have "task_open exact (keys m') (sys_arrived x) (sys_cpus x j)"
      proof (rule not_busy_other [OF serial_invD(3) [OF inv]])
        show "\<not> busy_with (sys_cpus x j) (sg_flow s)"
          using serial_invD(1) [OF inv, of i "sg_flow s" j] mine False by blast
        show "g \<noteq> sg_flow s \<Longrightarrow> tracks exact (g \<in> keys m') (g \<in> keys (sys_table x))" for g
          using step by blast
      qed simp
      with False show ?thesis by simp
    qed
  next
    fix j k f
    assume "busy_with (sys_cpus ?y j) f" "busy_with (sys_cpus ?y k) f"
    then have "busy_with (sys_cpus x j) f" "busy_with (sys_cpus x k) f"
      using t' mine by (auto split: if_splits)
    then show "j = k" by (rule serial_invD(1) [OF inv])
  next
    fix f
    assume f: "\<And>j. \<not> busy_with (sys_cpus ?y j) f"
    show "tracks exact (f \<in> keys (sys_table ?y)) (opened f (sys_arrived ?y))"
    proof (cases "f = sg_flow s")
      case True
      with f [of i] have "\<not> busy_with t' (sg_flow s)" by simp
      with busy_with_segment [of t' s] step have "t' = Idle" by auto
      with step True show ?thesis by simp
    next
      case False
      have "\<not> busy_with (sys_cpus x j) f" for j
        using f [of j] mine False by (cases "j = i") auto
      with serial_invD(2) [OF inv, of f] have "tracks exact (f \<in> keys (sys_table x)) (opened f (sys_arrived x))" by simp
      moreover from False step have "tracks exact (f \<in> keys m') (f \<in> keys (sys_table x))" by blast
      ultimately show ?thesis by (auto intro: tracks_trans)
    qed
  qed
qed

section \<open>Room on many CPUs\<close>

fun roomy_on :: "nat \<Rightarrow> nat \<Rightarrow> flow_segment list \<Rightarrow> bool" where
  \<comment> \<open>newest first: there is always room for the open flows and one more for each of \<open>c\<close> CPUs\<close>
  "roomy_on c n [] \<longleftrightarrow> c \<le> n"
| "roomy_on c n (s # h) \<longleftrightarrow> roomy_on c n h \<and> card (open_flows (s # h)) + c \<le> n"

lemma roomy_on_now: "roomy_on c n h \<Longrightarrow> card (open_flows h) + c \<le> n"
  by (cases h) (simp_all add: open_flows_def)

lemma roomy_on_roomy: "roomy_on c n h \<Longrightarrow> 0 < c \<Longrightarrow> roomy n h"
proof (induction h)
  case (Cons s h)
  then have "card (open_flows h) + c \<le> n" using roomy_on_now [of c n h] by simp
  with Cons show ?case
    using card_insert_le_m1 [of "Suc (card (open_flows h))" "open_flows h" "sg_flow s"] by (simp add: fits_def)
qed simp

lemma other_cpus_idle:
  "system_run serial ops x tr y \<Longrightarrow> \<forall>(i, e) \<in> set tr. i < c \<Longrightarrow> c \<le> j \<Longrightarrow> sys_cpus y j = sys_cpus x j"
  by (induction rule: system_run.induct) (auto elim!: system_stepE)

text \<open>The stored flows are open or held by a CPU, so there is room for one that a CPU holds.\<close>

lemma serial_inv_fits:
  assumes inv: "serial_inv True keys x" and idle: "\<And>j. c \<le> j \<Longrightarrow> sys_cpus x j = Idle"
    and room: "roomy_on c n (sys_arrived x)" and sg: "task_segment (sys_cpus x i) = Some s"
  shows "fits n (keys (sys_table x)) (sg_flow s)"
proof -
  let ?held = "(\<lambda>i. sg_flow (the (task_segment (sys_cpus x i)))) ` {..<c}"
  have held: "f \<in> ?held" if "busy_with (sys_cpus x j) f" for f j
  proof (rule image_eqI [where x = j])
    show "f = sg_flow (the (task_segment (sys_cpus x j)))"
      using that by (auto simp: busy_with_def split: option.splits)
    show "j \<in> {..<c}" using that idle [of j] by (cases "c \<le> j") auto
  qed
  have sub: "insert (sg_flow s) (keys (sys_table x)) \<subseteq> open_flows (sys_arrived x) \<union> ?held"
  proof
    fix f
    assume f: "f \<in> insert (sg_flow s) (keys (sys_table x))"
    show "f \<in> open_flows (sys_arrived x) \<union> ?held"
    proof (cases "\<exists>j. busy_with (sys_cpus x j) f")
      case True
      with held show ?thesis by blast
    next
      case False
      with f busy_with_segment [OF sg] have "f \<in> keys (sys_table x)" by blast
      with serial_invD(2) [OF inv, of f] False show ?thesis by (auto simp: open_flows_iff tracks_def)
    qed
  qed
  have "card (insert (sg_flow s) (keys (sys_table x))) \<le> card (open_flows (sys_arrived x) \<union> ?held)"
    by (rule card_mono [OF _ sub]) simp
  also have "\<dots> \<le> card (open_flows (sys_arrived x)) + card ?held" by (rule card_Un_le)
  also have "\<dots> \<le> n" using roomy_on_now [OF room] card_image_le [of "{..<c}" "\<lambda>i. sg_flow (the (task_segment (sys_cpus x i)))"]
    by simp
  finally show ?thesis using finite_subset [OF sub] by (simp add: fits_def)
qed

lemma serial_inv_step:
  assumes "flow_table ops keys" and "serial_inv exact keys x" and "system_step True ops x i e y"
    and "exact \<Longrightarrow> lru_room ops keys n \<and> roomy_on c n (sys_arrived x) \<and> (\<forall>j \<ge> c. sys_cpus x j = Idle)"
  shows "serial_inv exact keys y"
  using assms(3)
proof (cases rule: system_stepE)
  case (arrive s)
  with serial_inv_arrive [OF assms(2), of i s] show ?thesis by simp
next
  case (advance t m)
  have "lru_room ops keys n \<and> fits n (keys (sys_table x)) (sg_flow s)"
    if "exact" "task_segment (sys_cpus x i) = Some s" for s
    using that assms(2,4) serial_inv_fits [of keys x c n i s] by simp
  from serial_inv_advance [OF assms(1,2) this advance(2,3)] show ?thesis by (simp add: advance(1))
qed

lemma run_serial_inv:
  assumes t: "flow_table ops keys" and m: "keys m = {}"
  shows "system_run True ops (boot m) tr x \<Longrightarrow>
    (exact \<Longrightarrow> lru_room ops keys n \<and> roomy_on c n (sys_arrived x) \<and> (\<forall>(i, e) \<in> set tr. i < c)) \<Longrightarrow>
    serial_inv exact keys x"
proof (induction tr arbitrary: x rule: rev_induct)
  case Nil
  then have "x = boot m" by (auto elim: system_run.cases)
  with m show ?case by (intro serial_invI) simp_all
next
  case (snoc p tr)
  obtain i e where p: "p = (i, e)" by fastforce
  from system_run_snocE [OF snoc.prems(1) [unfolded p]] obtain y where
    y: "system_run True ops (boot m) tr y" "system_step True ops y i e x" .
  from y(2) have "roomy_on c n (sys_arrived x) \<Longrightarrow> roomy_on c n (sys_arrived y)"
    by (cases rule: system_stepE) simp_all
  with snoc.prems(2) have l: "exact \<Longrightarrow> lru_room ops keys n \<and> roomy_on c n (sys_arrived y) \<and> (\<forall>(i, e) \<in> set tr. i < c)"
    by simp
  with other_cpus_idle [OF y(1), of c] have
    "exact \<Longrightarrow> lru_room ops keys n \<and> roomy_on c n (sys_arrived y) \<and> (\<forall>j \<ge> c. sys_cpus y j = Idle)" by simp
  from serial_inv_step [OF t snoc.IH [OF y(1) l] y(2) this] show ?case .
qed

lemma finished_open:
  assumes "serial_inv exact keys x" and "system_step serial ops x i (Some (s, a)) y"
  shows "\<exists>hs. own (sg_flow s) (sys_arrived x) = s # hs \<and> a \<in> {XDP_PASS, XDP_DROP} \<and>
    tracks exact (a = XDP_PASS) (sg_payload s = [] \<or> is_handshake (sg_payload s) \<or> kept_open s hs)"
  using serial_invD(3) [OF assms(1), of i] unfolding step_event [OF assms(2)] task_open.simps
  by (elim exE conjE, intro exI conjI)

section \<open>Without it: a race\<close>

text \<open>
  Two CPUs on one flow: one has judged a handshake and is about to store the flow when the
  other handles the next connection's SYN. The removal finds nothing, the insertion follows.
\<close>

definition race_prefix :: "flow_key \<Rightarrow> bytes \<Rightarrow> bytes \<Rightarrow> (nat \<times> system_event) list" where
  "race_prefix f hs data = (let
       old = \<lparr>sg_flow = f, sg_syn = False, sg_teardown = False, sg_payload = hs\<rparr>;
       syn = \<lparr>sg_flow = f, sg_syn = True, sg_teardown = False, sg_payload = []\<rparr>
     in [(0, None), (0, None), (0, None), (1, None), (1, None), (1, Some (syn, XDP_PASS)),
         (0, None), (0, Some (old, XDP_PASS)), (1, None), (1, None), (1, None)])"

lemma race_run:
  assumes "is_handshake hs" and "data \<noteq> []"
  shows "\<exists>x y. system_run False lru_list (boot []) (race_prefix f hs data) x \<and>
    sys_arrived x = [\<lparr>sg_flow = f, sg_syn = False, sg_teardown = False, sg_payload = data\<rparr>,
      \<lparr>sg_flow = f, sg_syn = True, sg_teardown = False, sg_payload = []\<rparr>,
      \<lparr>sg_flow = f, sg_syn = False, sg_teardown = False, sg_payload = hs\<rparr>] \<and>
    system_step False lru_list x 1
      (Some (\<lparr>sg_flow = f, sg_syn = False, sg_teardown = False, sg_payload = data\<rparr>, XDP_PASS)) y"
proof -
  let ?old = "\<lparr>sg_flow = f, sg_syn = False, sg_teardown = False, sg_payload = hs\<rparr>"
  let ?syn = "\<lparr>sg_flow = f, sg_syn = True, sg_teardown = False, sg_payload = []\<rparr>"
  let ?new = "\<lparr>sg_flow = f, sg_syn = False, sg_teardown = False, sg_payload = data\<rparr>"
  have ne: "hs \<noteq> []" using assms(1) by auto
  have arr: "sys_cpus x i = Idle \<Longrightarrow> system_run False lru_list (arrived_on i s x) tr z \<Longrightarrow>
      system_run False lru_list x ((i, None) # tr) z" for i s x tr z
    by (rule system_run.step [OF system_step.arrive]) simp_all
  have adv: "sys_cpus x i \<noteq> Idle \<Longrightarrow> task_step lru_list (sys_cpus x i) (sys_table x) = (t, m, e) \<Longrightarrow>
      system_run False lru_list (advanced i t m x) tr z \<Longrightarrow> system_run False lru_list x ((i, e) # tr) z" for i x t m e tr z
    by (rule system_run.step [OF system_step.advance])
  note table = lru_list_def max_entries_def torn_down_def
  show ?thesis
    unfolding race_prefix_def Let_def
    apply (intro exI conjI)
      apply (rule arr [where s = ?old], simp)
      apply (rule adv, simp, simp add: ne)
      apply (rule adv, simp, simp add: table assms(1))
      apply (rule arr [where s = ?syn], simp)
      apply (rule adv, simp, simp add: table)
      apply (rule adv, simp, simp add: table)
      apply (rule adv, simp, simp add: table)
      apply (rule adv, simp, simp add: table)
      apply (rule arr [where s = ?new], simp)
      apply (rule adv, simp, simp add: assms(2))
      apply (rule adv, simp, simp add: table)
      apply (rule system_run.stop)
     apply simp
    apply (rule system_step.advance, simp, simp add: table)
    done
qed

section \<open>Properties\<close>

text \<open>
  With the packets of each flow handled one at a time, on as many CPUs as there are, and
  whatever the table evicts, data is passed only if it starts with a handshake or its flow is
  open by the flow's own earlier segments, as in a sequential run.
\<close>

theorem serial_data_was_opened:
  assumes "lru_laws ops keys" and "keys m = {}" and "system_run True ops (boot m) tr x"
    and "system_step True ops x i (Some (s, XDP_PASS)) y" and "sg_payload s \<noteq> []"
  shows "\<exists>hs. own (sg_flow s) (sys_arrived x) = s # hs \<and>
    (is_handshake (sg_payload s) \<or> \<not> sg_syn s \<and> opened (sg_flow s) hs)"
proof -
  have "serial_inv False keys x"
    by (rule run_serial_inv [OF flow_table.intro [OF assms(1)] assms(2,3)]) simp
  from finished_open [OF this assms(4)] assms(5) show ?thesis by (auto simp: tracks_def)
qed

theorem serial_data_was_opened_witness:
  "\<exists>(x :: flow_key list system) hs. own test_flow (sys_arrived x) =
     \<lparr>sg_flow = test_flow, sg_syn = False, sg_teardown = False, sg_payload = localhost_login_wire\<rparr> # hs \<and>
     (is_handshake localhost_login_wire \<or> \<not> False \<and> opened test_flow hs)"
proof -
  let ?s = "\<lparr>sg_flow = test_flow, sg_syn = False, sg_teardown = False, sg_payload = localhost_login_wire\<rparr>"
  have ne: "localhost_login_wire \<noteq> []" by (simp add: localhost_login_wire_def)
  have "runs_alone lru_list (At_syn ?s) (sys_table (boot [])) XDP_PASS [test_flow]"
    using login_runs_alone [of ?s] by simp
  from arrival_alone [OF _ this, where serial = True and i = 2] obtain tr x y where
    r: "system_run True lru_list (boot []) tr x" and st: "system_step True lru_list x 2 (Some (?s, XDP_PASS)) y"
    by auto
  from serial_data_was_opened [OF lru.laws _ r st] ne show ?thesis by auto
qed

text \<open>
  That discipline is needed. If two CPUs may hold packets of one flow, the program's removal
  on SYN can come before the insertion of a handshake of the connection before it, and the new
  connection's data passes although nothing of it was a handshake.
\<close>

theorem stale_handshake_race:
  assumes "is_handshake hs" and "data \<noteq> []" and "\<not> is_handshake data"
  shows "\<exists>tr x s y earlier. system_run False lru_list (boot []) tr x \<and>
    system_step False lru_list x 1 (Some (s, XDP_PASS)) y \<and> sg_payload s = data \<and>
    own (sg_flow s) (sys_arrived x) = s # earlier \<and> \<not> opened (sg_flow s) earlier"
proof -
  let ?s = "\<lparr>sg_flow = test_flow, sg_syn = False, sg_teardown = False, sg_payload = data\<rparr>"
  let ?earlier = "[\<lparr>sg_flow = test_flow, sg_syn = True, sg_teardown = False, sg_payload = []\<rparr>,
    \<lparr>sg_flow = test_flow, sg_syn = False, sg_teardown = False, sg_payload = hs\<rparr>]"
  from race_run [OF assms(1,2), of test_flow] obtain x y where
    "system_run False lru_list (boot []) (race_prefix test_flow hs data) x"
    and arr: "sys_arrived x = ?s # ?earlier" and "system_step False lru_list x 1 (Some (?s, XDP_PASS)) y" by auto
  moreover have "own (sg_flow ?s) (sys_arrived x) = ?s # ?earlier" "\<not> opened (sg_flow ?s) ?earlier"
    by (simp_all add: arr own_def)
  ultimately show ?thesis
    by (intro exI [of _ "race_prefix test_flow hs data"] exI [of _ x] exI [of _ ?s] exI [of _ y]
        exI [of _ ?earlier] conjI) simp_all
qed

theorem stale_handshake_race_witness:
  "\<exists>tr x s y earlier. system_run False lru_list (boot []) tr x \<and>
    system_step False lru_list x 1 (Some (s, XDP_PASS)) y \<and> sg_payload s = [1, 0] \<and>
    own (sg_flow s) (sys_arrived x) = s # earlier \<and> \<not> opened (sg_flow s) earlier"
  by (rule stale_handshake_race [of localhost_login_wire]) simp_all

end
