(* ===== verification/Machine.thy ===== *)
theory Machine
  imports Calls Serial_Flows
begin

text \<open>
  The XDP program on many CPUs, over packets in memory. A \<open>machine\<close> is what each CPU holds, the
  shared table and the packets received; \<open>machine_step\<close> lets one CPU take a packet (which may be
  settled by its headers alone) or go from one call on the map to the next. It refines the
  system of theory \<open>Concurrent\<close>, step by step and in both directions, so what is proved there of
  segments holds here of packets; and no CPU ever faults. \<open>serial\<close> is the discipline of receive
  steering: no packet is taken while another CPU holds one of its flow.
\<close>

section \<open>The machine\<close>

record 'm machine =
  mc_cpus :: "nat \<Rightarrow> cpu"
  mc_table :: 'm
  mc_packets :: "xdp_context list"  \<comment> \<open>newest first\<close>

fun cpu_call :: "cpu \<Rightarrow> call option" where
  "cpu_call Free = None"
| "cpu_call (Syn_check c) = Some c"
| "cpu_call (Lookup c) = Some c"
| "cpu_call (Insert c) = Some c"
| "cpu_call (Teardown c a) = Some c"

definition holds_flow :: "cpu \<Rightarrow> flow_key \<Rightarrow> bool" where
  "holds_flow c f \<longleftrightarrow> (case cpu_call c of None \<Rightarrow> False | Some k \<Rightarrow> cl_flow k = f)"

definition power_on :: "'m \<Rightarrow> 'm machine" where
  "power_on m = \<lparr>mc_cpus = \<lambda>_. Free, mc_table = m, mc_packets = []\<rparr>"

definition receive :: "nat \<Rightarrow> xdp_context \<Rightarrow> cpu \<Rightarrow> 'm machine \<Rightarrow> 'm machine" where
  "receive i ctx c x = x\<lparr>mc_cpus := (mc_cpus x)(i := c), mc_packets := ctx # mc_packets x\<rparr>"

definition proceed :: "nat \<Rightarrow> cpu \<Rightarrow> 'm \<Rightarrow> 'm machine \<Rightarrow> 'm machine" where
  "proceed i c m x = x\<lparr>mc_cpus := (mc_cpus x)(i := c), mc_table := m\<rparr>"

inductive machine_step ::
  "bool \<Rightarrow> network_types \<Rightarrow> (flow_key, 'm) lru_map \<Rightarrow> 'm machine \<Rightarrow> nat \<Rightarrow> verdict_event option \<Rightarrow>
   'm machine \<Rightarrow> bool"
  for serial :: bool and N :: network_types and ops :: "(flow_key, 'm) lru_map" where
  settle: "mc_cpus x i = Free \<Longrightarrow> real_packet ctx \<Longrightarrow> verdict_head N ctx = Inr (Inl (a, logs)) \<Longrightarrow>
    machine_step serial N ops x i (Some (ctx, a, logs)) (receive i ctx Free x)"
| accept: "mc_cpus x i = Free \<Longrightarrow> real_packet ctx \<Longrightarrow> verdict_head N ctx = Inr (Inr c) \<Longrightarrow>
    (serial \<Longrightarrow> \<forall>j. \<not> holds_flow (mc_cpus x j) (cl_flow c)) \<Longrightarrow>
    machine_step serial N ops x i None (receive i ctx (Syn_check c) x)"
| proceed: "mc_cpus x i \<noteq> Free \<Longrightarrow> call_step ops (mc_cpus x i) (mc_table x) = Inr (c, m, e) \<Longrightarrow>
    machine_step serial N ops x i e (proceed i c m x)"

inductive_cases machine_stepE [consumes 1, case_names settle accept proceed]: "machine_step serial N ops x i e y"

inductive machine_run ::
  "bool \<Rightarrow> network_types \<Rightarrow> (flow_key, 'm) lru_map \<Rightarrow> 'm machine \<Rightarrow> (nat \<times> verdict_event option) list \<Rightarrow>
   'm machine \<Rightarrow> bool"
  for serial :: bool and N :: network_types and ops :: "(flow_key, 'm) lru_map" where
  stop: "machine_run serial N ops x [] x"
| step: "machine_step serial N ops x i e y \<Longrightarrow> machine_run serial N ops y tr z \<Longrightarrow>
    machine_run serial N ops x ((i, e) # tr) z"

lemma machine_simps [simp]:
  "mc_cpus (receive i ctx c x) = (mc_cpus x)(i := c)" "mc_cpus (proceed i c m x) = (mc_cpus x)(i := c)"
  "mc_table (receive i ctx c x) = mc_table x" "mc_table (proceed i c m x) = m"
  "mc_packets (receive i ctx c x) = ctx # mc_packets x" "mc_packets (proceed i c m x) = mc_packets x"
  "mc_cpus (power_on m) i = Free" "mc_table (power_on m) = m" "mc_packets (power_on m) = []"
  by (simp_all add: receive_def proceed_def power_on_def)

section \<open>It is the system of segments\<close>

definition packet_segments :: "network_types \<Rightarrow> 'm machine \<Rightarrow> flow_segment list" where
  \<comment> \<open>newest first\<close>
  "packet_segments N x = segments N (map ctx_bytes (mc_packets x))"

definition mirrors :: "network_types \<Rightarrow> 'm machine \<Rightarrow> 'm system \<Rightarrow> bool" where
  "mirrors N x y \<longleftrightarrow> (\<forall>i. stands_for N (mc_cpus x i) (sys_cpus y i)) \<and> mc_table x = sys_table y \<and>
     packet_segments N x = sys_arrived y"

fun system_events :: "network_types \<Rightarrow> nat \<times> verdict_event option \<Rightarrow> (nat \<times> system_event) list" where
  \<comment> \<open>a packet settled by its headers is no event of the system\<close>
  "system_events N (i, None) = [(i, None)]"
| "system_events N (i, Some (ctx, a, logs)) =
     (case packet_segment N ctx of Inl _ \<Rightarrow> [] | Inr s \<Rightarrow> [(i, Some (s, a))])"

lemma packet_segments_receive:
  "packet_segments N (receive i ctx c x) =
    (case packet_segment N ctx of Inl _ \<Rightarrow> packet_segments N x | Inr s \<Rightarrow> s # packet_segments N x)"
  by (simp add: packet_segments_def segments_def split: sum.split)

lemma packet_segments_proceed [simp]: "packet_segments N (proceed i c m x) = packet_segments N x"
  by (simp add: packet_segments_def)

lemma stands_for_idle: "stands_for N c Idle \<longleftrightarrow> c = Free"
  by (cases c) auto

lemma stands_for_holds:
  assumes "stands_for N c t"
  shows "holds_flow c f \<longleftrightarrow> busy_with t f"
proof (cases "cpu_call c")
  case None
  with assms have "c = Free" by (cases c) simp_all
  with assms show ?thesis by (simp add: holds_flow_def)
next
  case (Some k)
  with assms obtain s where "task_segment t = Some s" "carries N k s" by (cases c) auto
  with Some show ?thesis by (simp add: holds_flow_def busy_with_def carries_fields(5))
qed

lemma mirrors_boot: "mirrors N (power_on m) (boot m)"
  by (simp add: mirrors_def packet_segments_def segments_def)

lemma mirrorsD:
  assumes "mirrors N x y"
  shows "stands_for N (mc_cpus x i) (sys_cpus y i)" and "mc_table x = sys_table y"
    and "packet_segments N x = sys_arrived y"
  using assms by (simp_all add: mirrors_def)

lemma events_event_of:
  assumes "event_of N e e'"
  shows "system_events N (i, e) = [(i, e')]"
  using assms by (cases e) (auto simp: event_of_def)

lemma mirror_proceed:
  assumes "mirrors N x y" and "mc_cpus x i \<noteq> Free"
    and "call_step ops (mc_cpus x i) (mc_table x) = Inr (c, m, e)"
  shows "\<exists>t e'. sys_cpus y i \<noteq> Idle \<and> task_step ops (sys_cpus y i) (sys_table y) = (t, m, e') \<and>
    mirrors N (proceed i c m x) (advanced i t m y) \<and> event_of N e e'"
proof -
  obtain t m' e' where st: "task_step ops (sys_cpus y i) (sys_table y) = (t, m', e')"
    by (metis prod_cases3)
  note mir = mirrorsD [OF assms(1)]
  from call_step_task [OF mir(1) st] assms(3) have r: "m' = m" "stands_for N c t" "event_of N e e'"
    by (auto simp: mir(2))
  moreover have "sys_cpus y i \<noteq> Idle" using mir(1) [of i] assms(2) by (auto simp: stands_for_idle)
  moreover have "mirrors N (proceed i c m x) (advanced i t m y)"
    using assms(1) r(2) by (simp add: mirrors_def)
  ultimately show ?thesis using st by blast
qed

lemma verdict_head_cases:
  assumes "header_layout N" and "real_packet ctx"
  obtains (settled) a logs where "packet_segment N ctx = Inl a" "verdict_head N ctx = Inr (Inl (a, logs))"
    | (judged) s k where "packet_segment N ctx = Inr s" "verdict_head N ctx = Inr (Inr k)" "cl_ctx k = ctx" "carries N k s"
  using verdict_head_settled [OF assms] verdict_head_judged [OF assms] by (cases "packet_segment N ctx") blast+

text \<open>Each step of the machine is the system's step, or none at all.\<close>

lemma mirror_step:
  assumes N: "header_layout N" and mir: "mirrors N x y" and st: "machine_step serial N ops x i e x'"
  shows "\<exists>y'. system_run serial ops y (system_events N (i, e)) y' \<and> mirrors N x' y'"
  using st
proof (cases rule: machine_stepE)
  case (settle ctx a logs)
  from verdict_head_cases [OF N settle(4)] settle(5) have "packet_segment N ctx = Inl a" by auto
  moreover from this have "mirrors N x' y"
    using mir mirrorsD(1) [OF mir, of i] settle(3) by (simp add: settle(2) mirrors_def packet_segments_receive)
  ultimately show ?thesis using system_run.stop by (auto simp: settle(1))
next
  case (accept ctx c)
  from verdict_head_cases [OF N accept(4)] accept(5) obtain s where
    s: "packet_segment N ctx = Inr s" "carries N c s" by auto
  note stands = mirrorsD(1) [OF mir]
  have "sys_cpus y i = Idle" using stands [of i] accept(3) by simp
  moreover have "serial \<Longrightarrow> \<forall>j. \<not> busy_with (sys_cpus y j) (sg_flow s)"
    using accept(6) carries_fields(5) [OF s(2)] stands_for_holds [OF stands] by simp
  ultimately have "system_step serial ops y i None (arrived_on i s y)" by (rule system_step.arrive)
  moreover have "mirrors N x' (arrived_on i s y)"
    using mir s(2) by (auto simp: mirrors_def accept(2) packet_segments_receive s(1))
  ultimately show ?thesis
    unfolding accept(1) by (auto intro: system_run.intros)
next
  case (proceed c m)
  from mirror_proceed [OF mir proceed(2,3)] obtain t e' where
    "sys_cpus y i \<noteq> Idle" "task_step ops (sys_cpus y i) (sys_table y) = (t, m, e')"
    and r: "mirrors N x' (advanced i t m y)" "event_of N e e'" unfolding proceed(1) by blast
  then have "system_step serial ops y i e' (advanced i t m y)" by (intro system_step.advance)
  with r show ?thesis
    unfolding events_event_of [OF r(2)] by (auto intro: system_run.intros)
qed

lemma system_run_append:
  "system_run serial ops x tr y \<Longrightarrow> system_run serial ops y tr' z \<Longrightarrow> system_run serial ops x (tr @ tr') z"
  by (induction rule: system_run.induct) (auto intro: system_run.step)

lemma mirror_run:
  assumes "header_layout N"
  shows "machine_run serial N ops x tr x' \<Longrightarrow> mirrors N x y \<Longrightarrow>
    \<exists>y'. system_run serial ops y (concat (map (system_events N) tr)) y' \<and> mirrors N x' y'"
proof (induction arbitrary: y rule: machine_run.induct)
  case (step x i e x1 tr z)
  from mirror_step [OF assms step.prems step.hyps(1)] obtain y1 where
    1: "system_run serial ops y (system_events N (i, e)) y1" "mirrors N x1 y1" by blast
  from step.IH [OF 1(2)] obtain y2 where
    "system_run serial ops y1 (concat (map (system_events N) tr)) y2" "mirrors N z y2" by blast
  with system_run_append [OF 1(1)] show ?case by auto
qed (auto intro: system_run.stop)

lemmas machine_mirror = mirror_run [OF _ _ mirrors_boot]

text \<open>And the machine can follow every step of the system whose segments packets can carry.\<close>

definition sent :: "network_types \<Rightarrow> flow_segment \<Rightarrow> bool" where
  "sent N s \<longleftrightarrow> (\<exists>ctx. real_packet ctx \<and> packet_segment N ctx = Inr s)"

lemma sentI: "packet_ctx ctx bs \<Longrightarrow> classify N bs = Inr s \<Longrightarrow> sent N s"
  unfolding sent_def using real_packetI packet_ctx_bytes by metis

lemma follow_step:
  assumes N: "header_layout N" and mir: "mirrors N x y" and st: "system_step serial ops y i e' y'"
    and sent: "\<forall>s \<in> set (sys_arrived y'). sent N s"
  shows "\<exists>e x'. machine_step serial N ops x i e x' \<and> mirrors N x' y' \<and> system_events N (i, e) = [(i, e')]"
  using st
proof (cases rule: system_stepE)
  case (arrive s)
  from sent arrive(2) obtain ctx where ctx: "real_packet ctx" "packet_segment N ctx = Inr s"
    by (auto simp: sent_def)
  from verdict_head_cases [OF N ctx(1)] ctx(2) obtain k where
    k: "verdict_head N ctx = Inr (Inr k)" "carries N k s" by auto
  note stands = mirrorsD(1) [OF mir]
  have "mc_cpus x i = Free" using stands [of i] arrive(3) by (simp add: stands_for_idle)
  moreover have "serial \<Longrightarrow> \<forall>j. \<not> holds_flow (mc_cpus x j) (cl_flow k)"
    using arrive(4) carries_fields(5) [OF k(2)] stands_for_holds [OF stands] by simp
  ultimately have "machine_step serial N ops x i None (receive i ctx (Syn_check k) x)"
    using ctx(1) k(1) by (intro machine_step.accept)
  moreover have "mirrors N (receive i ctx (Syn_check k) x) y'"
    using mir k(2) by (auto simp: mirrors_def arrive(2) packet_segments_receive ctx(2))
  ultimately show ?thesis using system_events.simps(1) [of N i] arrive(1) by blast
next
  case (advance t m)
  note mir' = mirrorsD [OF mir]
  from call_step_task [OF mir'(1) advance(3)] obtain c e where
    c: "call_step ops (mc_cpus x i) (mc_table x) = Inr (c, m, e)" "stands_for N c t" "event_of N e e'"
    by (auto simp: mir'(2))
  have "mc_cpus x i \<noteq> Free" using mir'(1) [of i] advance(2) by auto
  from machine_step.proceed [OF this c(1), of serial N]
  have "machine_step serial N ops x i e (proceed i c m x)" .
  moreover have "mirrors N (proceed i c m x) y'" using mir c(2) by (simp add: mirrors_def advance(1))
  ultimately show ?thesis using events_event_of [OF c(3)] by blast
qed

lemma arrived_mono: "system_run serial ops x tr y \<Longrightarrow> set (sys_arrived x) \<subseteq> set (sys_arrived y)"
  by (induction rule: system_run.induct) (auto elim!: system_stepE)

lemma follow_run_cpus:
  assumes "header_layout N"
  shows "system_run serial ops y tr' y' \<Longrightarrow> mirrors N x y \<Longrightarrow> \<forall>s \<in> set (sys_arrived y'). sent N s \<Longrightarrow>
    \<exists>tr x'. machine_run serial N ops x tr x' \<and> mirrors N x' y' \<and> concat (map (system_events N) tr) = tr' \<and>
      map fst tr = map fst tr'"
proof (induction arbitrary: x rule: system_run.induct)
  case (stop y)
  then show ?case using machine_run.stop by fastforce
next
  case (step y i e' y1 tr' y2)
  from arrived_mono [OF step.hyps(2)] step.prems(2) have "\<forall>s \<in> set (sys_arrived y1). sent N s" by blast
  from follow_step [OF assms step.prems(1) step.hyps(1) this] obtain e x1 where
    1: "machine_step serial N ops x i e x1" "mirrors N x1 y1" "system_events N (i, e) = [(i, e')]" by blast
  from step.IH [OF 1(2) step.prems(2)] obtain tr x2 where
    2: "machine_run serial N ops x1 tr x2" "mirrors N x2 y2" "concat (map (system_events N) tr) = tr'"
      "map fst tr = map fst tr'" by blast
  from machine_run.step [OF 1(1) 2(1)] 1(3) 2(2-4) show ?case by fastforce
qed

lemma follow_run:
  assumes "header_layout N" and "system_run serial ops y tr' y'" and "mirrors N x y"
    and "\<forall>s \<in> set (sys_arrived y'). sent N s"
  shows "\<exists>tr x'. machine_run serial N ops x tr x' \<and> mirrors N x' y' \<and> concat (map (system_events N) tr) = tr'"
  using follow_run_cpus [OF assms] by blast

lemma event_step:
  assumes N: "header_layout N" and mir: "mirrors N x y"
    and st: "machine_step serial N ops x i (Some (ctx, a, logs)) x'" and c: "packet_segment N ctx = Inr s"
  shows "\<exists>y'. system_step serial ops y i (Some (s, a)) y'"
proof -
  from mirror_step [OF N mir st] c obtain y' where "system_run serial ops y [(i, Some (s, a))] y'" by auto
  then show ?thesis by (auto elim: system_run.cases)
qed

end
