(* ===== verification/Machine_Safety.thy ===== *)
theory Machine_Safety
  imports Machine
begin

text \<open>
  What the machine of theory \<open>Machine\<close> guarantees: it refines the system of segments both ways;
  no CPU is ever stuck or faults, and each packet gets its action within four calls; data
  passes only of flows that showed a handshake, in every interleaving; with one packet of a
  flow at a time the guarantees are those of a sequential run, and without that they are not.
\<close>

section \<open>No CPU faults, every packet gets its action\<close>

fun cpu_calls_left :: "cpu \<Rightarrow> nat" where
  "cpu_calls_left Free = 0"
| "cpu_calls_left (Syn_check c) = 4"
| "cpu_calls_left (Lookup c) = 3"
| "cpu_calls_left (Insert c) = 2"
| "cpu_calls_left (Teardown c a) = 1"

lemma cpu_calls_left_le: "cpu_calls_left c \<le> 4"
  by (cases c) simp_all

lemma call_step_progress:
  assumes "call_step ops c m = Inr (c', m', e)" and "cpu_call c = Some k"
  shows "e = None \<and> (\<exists>k'. cpu_call c' = Some k' \<and> cl_ctx k' = cl_ctx k) \<and> cpu_calls_left c' < cpu_calls_left c \<or>
    (\<exists>a logs. e = Some (cl_ctx k, a, logs))"
proof (cases c)
  case (Lookup k1)
  with assms show ?thesis
    by (cases "check_handshake (cl_ctx k1) (tp_payload_offset (cl_tcp k1)) (tp_payload_len (cl_tcp k1))"
        rule: outcome_cases) (auto split: prod.splits if_splits)
qed (use assms in \<open>auto simp: Let_def split: prod.splits if_splits\<close>)

lemma machine_other_cpu: "machine_step serial N ops x i e y \<Longrightarrow> j \<noteq> i \<Longrightarrow> mc_cpus y j = mc_cpus x j"
  by (erule machine_stepE) simp_all

lemma machine_busy_cpu:
  assumes "machine_step serial N ops x i e y" and "cpu_call (mc_cpus x i) = Some k"
  shows "e = None \<and> (\<exists>k'. cpu_call (mc_cpus y i) = Some k' \<and> cl_ctx k' = cl_ctx k) \<and>
      cpu_calls_left (mc_cpus y i) < cpu_calls_left (mc_cpus x i) \<or>
    (\<exists>a logs. e = Some (cl_ctx k, a, logs))"
  using assms(1)
proof (cases rule: machine_stepE)
  case (proceed c m)
  with call_step_progress [OF proceed(3) assms(2)] show ?thesis by simp
qed (use assms(2) in simp_all)

lemma machine_run_finishes:
  "machine_run serial N ops x tr y \<Longrightarrow> cpu_call (mc_cpus x i) = Some k \<Longrightarrow>
    cpu_calls_left (mc_cpus x i) \<le> length (filter (\<lambda>(j, e). j = i) tr) \<Longrightarrow>
    \<exists>a logs. (i, Some (cl_ctx k, a, logs)) \<in> set tr"
proof (induction arbitrary: k rule: machine_run.induct)
  case (stop x)
  then show ?case by (cases "mc_cpus x i") simp_all
next
  case (step x j e y tr z)
  show ?case
  proof (cases "j = i")
    case True
    from machine_busy_cpu [of serial N ops x i e y k] step.hyps(1) step.prems(1) True consider
      "\<exists>a logs. e = Some (cl_ctx k, a, logs)"
      | k' where "cpu_call (mc_cpus y i) = Some k'" "cl_ctx k' = cl_ctx k"
        "cpu_calls_left (mc_cpus y i) < cpu_calls_left (mc_cpus x i)" by blast
    then show ?thesis
    proof cases
      case 2
      with step.IH [of k'] step.prems(2) True show ?thesis by auto
    qed (use True in auto)
  next
    case False
    with machine_other_cpu [OF step.hyps(1), of i] step.IH [of k] step.prems show ?thesis by auto
  qed
qed

lemma mirrored_cpu_steps:
  assumes "mirrors N x y"
  shows "\<exists>c m e. call_step ops (mc_cpus x i) (mc_table x) = Inr (c, m, e)"
proof -
  obtain t m e where "task_step ops (sys_cpus y i) (sys_table y) = (t, m, e)" by (metis prod_cases3)
  with call_step_task [OF mirrorsD(1) [OF assms]] mirrorsD(2) [OF assms] show ?thesis by metis
qed

lemma busy_machine_cpu_enabled:
  assumes "mirrors N x y" and "cpu_call (mc_cpus x i) = Some k"
  shows "\<exists>e x'. machine_step serial N ops x i e x'"
proof -
  from mirrored_cpu_steps [OF assms(1), of ops i] obtain c m e where
    "call_step ops (mc_cpus x i) (mc_table x) = Inr (c, m, e)" by blast
  moreover have "mc_cpus x i \<noteq> Free" using assms(2) by auto
  ultimately show ?thesis by (blast intro: machine_step.proceed)
qed

section \<open>Packets for concrete runs\<close>

definition syn_frame :: bytes where
  \<comment> \<open>the test suite's frame with no payload and the flags byte SYN\<close>
  "syn_frame = (tcp_frame [])[47 := 0x02]"

lemma syn_frame_bytes:
  "syn_frame = [2, 0, 0, 0, 0, 1, 2, 0, 0, 0, 0, 2, 8, 0, 0x45, 0, 0, 40, 0x12, 0x34, 0x40, 0, 0x40, 6, 0, 0,
     10, 0, 1, 4, 10, 0x2B, 0xFF, 0x41, 0xD4, 0x31, 0x63, 0xDD, 0, 0, 0, 1, 0, 0, 0, 1, 0x50, 2, 0x20, 0, 0, 0, 0, 0]"
  by (simp add: syn_frame_def tcp_frame_def Let_def)

lemma syn_frame_ctx: "packet_ctx (fake_packet_ctx 4096 syn_frame) syn_frame"
  by (rule fake_packet_ctx) (simp_all add: syn_frame_bytes headroom_def)

lemma syn_frame_classify:
  assumes N: "header_layout N"
  shows "classify N syn_frame = Inr \<lparr>sg_flow = test_flow, sg_syn = True, sg_teardown = False, sg_payload = []\<rparr>"
proof -
  have f: "length syn_frame = 54" "frame_ihl syn_frame = 20" "frame_tot_len syn_frame = 40"
    "frame_tcp syn_frame = 34" "frame_doff syn_frame = 20" "\<not> frame_fragmented syn_frame"
    by (simp_all add: syn_frame_bytes frame_ihl_def frame_tot_len_def frame_tcp_def frame_doff_def frame_fragmented_def)
  have acc: "ipv4_acceptable syn_frame" "tcp_acceptable syn_frame"
    by (simp_all add: ipv4_acceptable_def tcp_acceptable_def f) (simp_all add: syn_frame_bytes)
  have flow: "sg_flow (segment_of_frame N syn_frame) = test_flow" "ip4_destination_port (ipv4_of_frame syn_frame) = 25565"
    by (simp_all add: segment_of_frame_def ipv4_of_frame_def f test_flow_def Let_def)
       (simp_all add: syn_frame_bytes u16_from_be_bytes_def u32_from_be_bytes_def)
  let ?h = "take 20 (drop 34 syn_frame)"
  have "tcp_flags_from_u8 (?h ! 13) = TcpFlags 2" by (simp add: syn_frame_bytes tcp_flags_from_u8_def)
  then have "is_syn (tcp_flags_from_header N ?h)" "\<not> is_fin (tcp_flags_from_header N ?h)"
    "\<not> is_rst (tcp_flags_from_header N ?h)"
    using tcp_flags_from_both [OF N, of ?h] by (simp_all add: f flag_bits)
  then have "segment_of_frame N syn_frame =
      \<lparr>sg_flow = test_flow, sg_syn = True, sg_teardown = False, sg_payload = []\<rparr>"
    using flow(1) by (simp add: segment_of_frame_def tcp_of_frame_def f Let_def)
  with acc f flow(2) show ?thesis
    by (simp add: classify_def) (simp add: syn_frame_bytes u16_from_be_bytes_def)
qed

lemma sent_tcp_frame:
  assumes "header_layout N" and "length payload \<le> 1460"
  shows "sent N \<lparr>sg_flow = test_flow, sg_syn = False, sg_teardown = False, sg_payload = payload\<rparr>"
  by (rule sentI [OF tcp_frame_ctx [OF assms(2)] classify_tcp_frame [OF assms]])

lemma sent_syn:
  "header_layout N \<Longrightarrow> sent N \<lparr>sg_flow = test_flow, sg_syn = True, sg_teardown = False, sg_payload = []\<rparr>"
  by (rule sentI [OF syn_frame_ctx syn_frame_classify])

text \<open>A system run that ends with an action, as a run of the machine.\<close>

lemma follow_to_action:
  assumes N: "header_layout N" and r: "system_run serial ops (boot m) tr y"
    and st: "system_step serial ops y i (Some (s, a)) y'" and sent: "\<forall>s \<in> set (sys_arrived y). sent N s"
  shows "\<exists>tr x ctx logs x'. machine_run serial N ops (power_on m) tr x \<and> mirrors N x y \<and>
    machine_step serial N ops x i (Some (ctx, a, logs)) x' \<and> packet_segment N ctx = Inr s"
proof -
  from follow_run [OF N r mirrors_boot sent] obtain tr x where
    x: "machine_run serial N ops (power_on m) tr x" "mirrors N x y" by blast
  have "sys_arrived y' = sys_arrived y" using st by (cases rule: system_stepE) simp_all
  with follow_step [OF N x(2) st] sent obtain e x' where
    e: "machine_step serial N ops x i e x'" "system_events N (i, e) = [(i, Some (s, a))]" by auto
  from e(2) obtain ctx logs where "e = Some (ctx, a, logs)" "packet_segment N ctx = Inr s"
    by (cases e) (auto split: sum.splits)
  with x e(1) show ?thesis by blast
qed

lemma login_on_machine:
  "\<exists>tr x ctx logs y. machine_run serial rfc_headers lru_list (power_on []) tr x \<and>
     packet_segments rfc_headers x =
       [\<lparr>sg_flow = test_flow, sg_syn = False, sg_teardown = False, sg_payload = localhost_login_wire\<rparr>] \<and>
     machine_step serial rfc_headers lru_list x i (Some (ctx, XDP_PASS, logs)) y \<and>
     packet_segment rfc_headers ctx =
       Inr \<lparr>sg_flow = test_flow, sg_syn = False, sg_teardown = False, sg_payload = localhost_login_wire\<rparr>"
proof -
  let ?s = "\<lparr>sg_flow = test_flow, sg_syn = False, sg_teardown = False, sg_payload = localhost_login_wire\<rparr>"
  have "runs_alone lru_list (At_syn ?s) (sys_table (boot [])) XDP_PASS [test_flow]"
    using login_runs_alone [of ?s] by simp
  from arrival_alone [OF _ this, where serial = serial and i = i] obtain tr y y' where
    y: "system_run serial lru_list (boot []) tr y" "sys_arrived y = [?s]"
      "system_step serial lru_list y i (Some (?s, XDP_PASS)) y'" by auto
  have "sent rfc_headers ?s"
    by (rule sent_tcp_frame [OF rfc_headers_layout]) (simp add: localhost_wire_length)
  with y(2) have "\<forall>s \<in> set (sys_arrived y). sent rfc_headers s" by simp
  from follow_to_action [OF rfc_headers_layout y(1,3) this] mirrorsD(3) y(2) show ?thesis by metis
qed

section \<open>Properties\<close>

text \<open>
  C6: packets in memory and the segments they carry are the same system: every run of the
  program on many CPUs is a run of the system of theory \<open>Concurrent\<close> with the same actions, and
  every run of that system whose segments packets can carry is a run of the program.
\<close>

theorem machine_refines_system:
  assumes "header_layout N"
  shows "(\<forall>tr x. machine_run serial N ops (power_on m) tr x \<longrightarrow>
      (\<exists>y. system_run serial ops (boot m) (concat (map (system_events N) tr)) y \<and> mirrors N x y)) \<and>
    (\<forall>tr' y. system_run serial ops (boot m) tr' y \<and> (\<forall>s \<in> set (sys_arrived y). sent N s) \<longrightarrow>
      (\<exists>tr x. machine_run serial N ops (power_on m) tr x \<and> mirrors N x y \<and>
         concat (map (system_events N) tr) = tr'))"
proof (intro conjI allI impI)
  fix tr x
  assume "machine_run serial N ops (power_on m) tr x"
  then show "\<exists>y. system_run serial ops (boot m) (concat (map (system_events N) tr)) y \<and> mirrors N x y"
    by (rule machine_mirror [OF assms])
next
  fix tr' y
  assume "system_run serial ops (boot m) tr' y \<and> (\<forall>s \<in> set (sys_arrived y). sent N s)"
  then show "\<exists>tr x. machine_run serial N ops (power_on m) tr x \<and> mirrors N x y \<and>
      concat (map (system_events N) tr) = tr'"
    using follow_run [OF assms _ mirrors_boot] by metis
qed

theorem machine_refines_system_witness:
  "\<exists>tr x. machine_run False rfc_headers lru_list (power_on []) tr x \<and>
     concat (map (system_events rfc_headers) tr) = [(4, None)]"
proof -
  let ?s = "\<lparr>sg_flow = test_flow, sg_syn = True, sg_teardown = False, sg_payload = []\<rparr>"
  have "system_step False lru_list (boot []) 4 None (arrived_on 4 ?s (boot []))"
    by (rule system_step.arrive) simp_all
  then have "system_run False lru_list (boot []) [(4, None)] (arrived_on 4 ?s (boot []))"
    by (rule system_run.step [OF _ system_run.stop])
  moreover have "\<forall>s \<in> set (sys_arrived (arrived_on 4 ?s (boot []))). sent rfc_headers s"
    using sent_syn [OF rfc_headers_layout] by simp
  ultimately show ?thesis
    using machine_refines_system [OF rfc_headers_layout, of False lru_list "[]"] by blast
qed

text \<open>
  C13: in every state the machine reaches, no CPU faults and no busy CPU is stuck; after four
  more steps of its own a busy CPU has returned an action for the packet it holds, whatever the
  other CPUs do and whatever the table answers.
\<close>

theorem machine_packets_get_actions:
  assumes "header_layout N" and "machine_run serial N ops (power_on m) tr x"
    and "cpu_call (mc_cpus x i) = Some c"
  shows "(\<exists>e y. machine_step serial N ops x i e y) \<and>
    (\<forall>tr y. machine_run serial N ops x tr y \<and> 4 \<le> length (filter (\<lambda>(j, e). j = i) tr) \<longrightarrow>
       (\<exists>a logs. (i, Some (cl_ctx c, a, logs)) \<in> set tr))"
proof
  from machine_mirror [OF assms(1,2)] obtain y where "mirrors N x y" by blast
  then show "\<exists>e y. machine_step serial N ops x i e y" by (rule busy_machine_cpu_enabled [OF _ assms(3)])
  show "\<forall>tr y. machine_run serial N ops x tr y \<and> 4 \<le> length (filter (\<lambda>(j, e). j = i) tr) \<longrightarrow>
      (\<exists>a logs. (i, Some (cl_ctx c, a, logs)) \<in> set tr)"
    using machine_run_finishes [OF _ assms(3)] cpu_calls_left_le order_trans by blast
qed

theorem machine_packets_get_actions_witness:
  "\<exists>x c. cpu_call (mc_cpus x 3) = Some c \<and> (\<exists>e y. machine_step False rfc_headers lru_list x 3 e y)"
proof -
  from login_on_machine [of False 3] obtain tr x ctx logs y where
    r: "machine_run False rfc_headers lru_list (power_on []) tr x"
    and st: "machine_step False rfc_headers lru_list x 3 (Some (ctx, XDP_PASS, logs)) y"
    and s: "packet_segment rfc_headers ctx =
       Inr \<lparr>sg_flow = test_flow, sg_syn = False, sg_teardown = False, sg_payload = localhost_login_wire\<rparr>" by blast
  have "mc_cpus x 3 \<noteq> Free"
    using st
  proof (cases rule: machine_stepE)
    case (settle ctx' a' logs')
    with verdict_head_cases [OF rfc_headers_layout settle(4)] s show ?thesis by auto
  qed simp_all
  then obtain c where c: "cpu_call (mc_cpus x 3) = Some c" by (cases "mc_cpus x 3") simp_all
  with machine_packets_get_actions [OF rfc_headers_layout r c] show ?thesis by blast
qed

text \<open>
  C5: with any number of CPUs and any interleaving of their calls on the shared table, whatever
  it evicts, a packet with data for port 25565 passes only if some packet of its flow, already
  received, carried a handshake. No race lets a client in that never showed one.
\<close>

theorem machine_data_was_shown:
  assumes "header_layout N" and "lru_laws ops keys" and "keys m = {}"
    and "machine_run serial N ops (power_on m) tr x"
    and "machine_step serial N ops x i (Some (ctx, XDP_PASS, logs)) y"
    and "packet_segment N ctx = Inr s" and "sg_payload s \<noteq> []"
  shows "\<exists>s' \<in> set (packet_segments N x). sg_flow s' = sg_flow s \<and> is_handshake (sg_payload s')"
proof -
  from machine_mirror [OF assms(1,4)] obtain z where
    z: "system_run serial ops (boot m) (concat (map (system_events N) tr)) z" "mirrors N x z" by blast
  from event_step [OF assms(1) z(2) assms(5,6)] obtain z' where "system_step serial ops z i (Some (s, XDP_PASS)) z'" ..
  from concurrent_data_was_shown [OF assms(2,3) z(1) this assms(7)] show ?thesis by (simp add: mirrorsD(3) [OF z(2)])
qed

theorem machine_data_was_shown_witness:
  "\<exists>tr x ctx logs y. machine_run False rfc_headers lru_list (power_on []) tr x \<and>
     machine_step False rfc_headers lru_list x 7 (Some (ctx, XDP_PASS, logs)) y \<and>
     (\<exists>s' \<in> set (packet_segments rfc_headers x). sg_flow s' = test_flow \<and> is_handshake (sg_payload s'))"
proof -
  have ne: "localhost_login_wire \<noteq> []" by (simp add: localhost_login_wire_def)
  from login_on_machine [of False 7] obtain tr x ctx logs y where
    r: "machine_run False rfc_headers lru_list (power_on []) tr x"
    and st: "machine_step False rfc_headers lru_list x 7 (Some (ctx, XDP_PASS, logs)) y"
    and s: "packet_segment rfc_headers ctx =
       Inr \<lparr>sg_flow = test_flow, sg_syn = False, sg_teardown = False, sg_payload = localhost_login_wire\<rparr>" by blast
  from machine_data_was_shown [OF rfc_headers_layout lru.laws _ r st s] ne have
    "\<exists>s' \<in> set (packet_segments rfc_headers x). sg_flow s' = test_flow \<and> is_handshake (sg_payload s')" by simp
  with r st show ?thesis by blast
qed

text \<open>
  C11: with the packets of each flow handled one at a time, on as many CPUs as there are, and
  whatever the table evicts, data is passed only if it starts with a handshake or its flow is
  open by the flow's own earlier segments, as in a sequential run.
\<close>

theorem machine_serial_data_was_opened:
  assumes "header_layout N" and "lru_laws ops keys" and "keys m = {}"
    and "machine_run True N ops (power_on m) tr x"
    and "machine_step True N ops x i (Some (ctx, XDP_PASS, logs)) y"
    and "packet_segment N ctx = Inr s" and "sg_payload s \<noteq> []"
  shows "\<exists>hs. own (sg_flow s) (packet_segments N x) = s # hs \<and>
    (is_handshake (sg_payload s) \<or> \<not> sg_syn s \<and> opened (sg_flow s) hs)"
proof -
  from machine_mirror [OF assms(1,4)] obtain z where
    z: "system_run True ops (boot m) (concat (map (system_events N) tr)) z" "mirrors N x z" by blast
  from event_step [OF assms(1) z(2) assms(5,6)] obtain z' where "system_step True ops z i (Some (s, XDP_PASS)) z'" ..
  from serial_data_was_opened [OF assms(2,3) z(1) this assms(7)] show ?thesis by (simp add: mirrorsD(3) [OF z(2)])
qed

theorem machine_serial_data_was_opened_witness:
  "\<exists>tr x ctx logs y hs. machine_run True rfc_headers lru_list (power_on []) tr x \<and>
     machine_step True rfc_headers lru_list x 2 (Some (ctx, XDP_PASS, logs)) y \<and>
     own test_flow (packet_segments rfc_headers x) =
       \<lparr>sg_flow = test_flow, sg_syn = False, sg_teardown = False, sg_payload = localhost_login_wire\<rparr> # hs"
proof -
  have ne: "localhost_login_wire \<noteq> []" by (simp add: localhost_login_wire_def)
  from login_on_machine [of True 2] obtain tr x ctx logs y where
    r: "machine_run True rfc_headers lru_list (power_on []) tr x"
    and st: "machine_step True rfc_headers lru_list x 2 (Some (ctx, XDP_PASS, logs)) y"
    and s: "packet_segment rfc_headers ctx =
       Inr \<lparr>sg_flow = test_flow, sg_syn = False, sg_teardown = False, sg_payload = localhost_login_wire\<rparr>" by blast
  from machine_serial_data_was_opened [OF rfc_headers_layout lru.laws _ r st s] ne obtain hs where
    "own test_flow (packet_segments rfc_headers x) =
       \<lparr>sg_flow = test_flow, sg_syn = False, sg_teardown = False, sg_payload = localhost_login_wire\<rparr> # hs" by auto
  with r st show ?thesis by blast
qed

text \<open>
  C16: one packet of a flow at a time is needed for that. If two CPUs may hold packets of one flow, the removal on SYN
  can come before the insertion of a handshake of the connection before it, and the new
  connection's data passes although nothing of it was a handshake. Any handshake and any data
  that fit a packet do.
\<close>

theorem machine_stale_handshake_race:
  assumes "header_layout N" and "is_handshake hs" and "data \<noteq> []" and "\<not> is_handshake data"
    and "length hs \<le> 1460" and "length data \<le> 1460"
  shows "\<exists>tr x ctx logs y s earlier. machine_run False N lru_list (power_on []) tr x \<and>
    machine_step False N lru_list x 1 (Some (ctx, XDP_PASS, logs)) y \<and>
    packet_segment N ctx = Inr s \<and> sg_payload s = data \<and>
    own (sg_flow s) (packet_segments N x) = s # earlier \<and> \<not> opened (sg_flow s) earlier"
proof -
  let ?s = "\<lparr>sg_flow = test_flow, sg_syn = False, sg_teardown = False, sg_payload = data\<rparr>"
  let ?earlier = "[\<lparr>sg_flow = test_flow, sg_syn = True, sg_teardown = False, sg_payload = []\<rparr>,
    \<lparr>sg_flow = test_flow, sg_syn = False, sg_teardown = False, sg_payload = hs\<rparr>]"
  from race_run [OF assms(2,3), of test_flow] obtain z z' where
    z: "system_run False lru_list (boot []) (race_prefix test_flow hs data) z"
      "sys_arrived z = ?s # ?earlier" "system_step False lru_list z 1 (Some (?s, XDP_PASS)) z'" by auto
  have "\<forall>s \<in> set (sys_arrived z). sent N s"
    using sent_syn [OF assms(1)] sent_tcp_frame [OF assms(1)] assms(5,6) by (simp add: z(2))
  from follow_to_action [OF assms(1) z(1,3) this] obtain tr x ctx logs y where
    "machine_run False N lru_list (power_on []) tr x" "mirrors N x z"
    "machine_step False N lru_list x 1 (Some (ctx, XDP_PASS, logs)) y" "packet_segment N ctx = Inr ?s" by blast
  moreover have "own (sg_flow ?s) (?s # ?earlier) = ?s # ?earlier" "\<not> opened (sg_flow ?s) ?earlier"
    by (simp_all add: own_def)
  ultimately show ?thesis
    using mirrorsD(3) [of N x z] z(2) flow_segment.simps(4) by metis
qed

theorem machine_stale_handshake_race_witness:
  "\<exists>tr x ctx logs y s earlier. machine_run False rfc_headers lru_list (power_on []) tr x \<and>
    machine_step False rfc_headers lru_list x 1 (Some (ctx, XDP_PASS, logs)) y \<and>
    packet_segment rfc_headers ctx = Inr s \<and> sg_payload s = [1, 0] \<and>
    own (sg_flow s) (packet_segments rfc_headers x) = s # earlier \<and> \<not> opened (sg_flow s) earlier"
  by (rule machine_stale_handshake_race [OF rfc_headers_layout, of localhost_login_wire])
     (simp_all add: localhost_wire_length)

end
