(* ===== verification/Linear_Runs.thy ===== *)
theory Linear_Runs
  imports Machine_Safety
begin

text \<open>
  Many CPUs against one. With the packets of a flow handled one at a time and room in the table
  (\<open>roomy_on\<close>),
  a run of the machine is, for each flow, the sequential run over the packets in the order they
  arrived: the same actions in the same order, and at the end the same table. \<open>judgements\<close> is
  what both are compared with: the actions a history of segments calls for, one after another.
\<close>

section \<open>What a history calls for\<close>

definition called_for :: "flow_segment \<Rightarrow> flow_segment list \<Rightarrow> xdp_action" where
  \<comment> \<open>the action of a segment after the segments \<open>h\<close>, newest first\<close>
  "called_for s h = (if sg_payload s = [] \<or> is_handshake (sg_payload s) \<or> kept_open s h
     then XDP_PASS else XDP_DROP)"

fun judgements :: "flow_segment list \<Rightarrow> (flow_segment \<times> xdp_action) list" where
  \<comment> \<open>of a history, newest first, the segments with their actions, oldest first\<close>
  "judgements [] = []"
| "judgements (s # h) = judgements h @ [(s, called_for s h)]"

definition on_flow :: "flow_key \<Rightarrow> (flow_segment \<times> xdp_action) list \<Rightarrow> (flow_segment \<times> xdp_action) list" where
  "on_flow f = filter (\<lambda>(s, a). sg_flow s = f)"

lemma on_flow_simps [simp]:
  "on_flow f [] = []" "on_flow f (xs @ ys) = on_flow f xs @ on_flow f ys"
  "on_flow f [(s, a)] = (if sg_flow s = f then [(s, a)] else [])"
  by (simp_all add: on_flow_def)

lemma on_flow_judgements: "on_flow f (judgements h) = judgements (own f h)"
  by (induction h) (auto simp: own_Cons called_for_def opened_own own_def [of _ "[]"])

definition segment_event :: "network_types \<Rightarrow> xdp_context \<Rightarrow> xdp_action \<Rightarrow> (flow_segment \<times> xdp_action) list" where
  "segment_event N ctx a = (case packet_segment N ctx of Inl _ \<Rightarrow> [] | Inr s \<Rightarrow> [(s, a)])"

section \<open>One CPU\<close>

definition sequential_outcomes ::
  "network_types \<Rightarrow> xdp_context list \<Rightarrow> xdp_action list \<Rightarrow> (flow_segment \<times> xdp_action) list" where
  "sequential_outcomes N ctxs as = concat (map (\<lambda>(ctx, a). segment_event N ctx a) (zip ctxs as))"

lemma filter_step_called_for:
  assumes "reachable True h S" and "filter_step True S s a S'"
  shows "a = called_for s h"
  using filter_step_action [OF assms(2)] reachable_exact [OF assms(1), of "sg_flow s"]
  by (auto simp: called_for_def after_syn_def)

lemma sequential_judgements:
  assumes N: "header_layout N" and t: "lru_laws ops keys" and l: "lru_room ops keys n"
  shows "\<forall>ctx \<in> set ctxs. real_packet ctx \<Longrightarrow> reachable True h (keys m) \<Longrightarrow>
    roomy n (rev (segments N (map ctx_bytes ctxs)) @ h) \<Longrightarrow>
    verdicts N ops ctxs m = Inr (as, m') \<Longrightarrow>
    judgements (rev (segments N (map ctx_bytes ctxs)) @ h) = judgements h @ sequential_outcomes N ctxs as \<and>
    reachable True (rev (segments N (map ctx_bytes ctxs)) @ h) (keys m')"
proof (induction ctxs arbitrary: h m as)
  case Nil
  then show ?case by (simp add: segments_def sequential_outcomes_def)
next
  case (Cons ctx ctxs)
  then have p: "real_packet ctx" by simp
  show ?case
  proof (cases "packet_segment N ctx")
    case (Inl a)
    from verdict_unjudged [OF N p Inl, of ops m] obtain logs where
      "verdict N ops ctx m = Inr (a, logs, m)" ..
    with Cons.prems(4) obtain as1 where as: "as = a # as1" "verdicts N ops ctxs m = Inr (as1, m')"
      by (auto simp: mc_sniffer_def and_then_Inr_iff)
    with Cons.IH [OF _ Cons.prems(2) _ as(2)] Cons.prems(1,3) Inl show ?thesis
      by (simp add: segments_def sequential_outcomes_def segment_event_def)
  next
    case (Inr s)
    from Cons.prems(3) Inr have room: "roomy n (rev (segments N (map ctx_bytes ctxs)) @ s # h)"
      by (simp add: segments_def)
    from roomy_append [OF this] reachable_fits [OF Cons.prems(2)] l
    have "True \<Longrightarrow> is_handshake (sg_payload s) \<Longrightarrow> lru_room ops keys n \<and> fits n (keys m) (sg_flow s)" by blast
    from verdict_step [OF N p t this Inr] obtain a logs m1 where
      v: "verdict N ops ctx m = Inr (a, logs, m1)" and st: "filter_step True (keys m) s a (keys m1)" by blast
    with Cons.prems(4) obtain as1 where as: "as = a # as1" "verdicts N ops ctxs m1 = Inr (as1, m')"
      by (auto simp: mc_sniffer_def and_then_Inr_iff)
    from Cons.IH [OF _ reachable.step [OF Cons.prems(2) st] room as(2)] Cons.prems(1) Inr
    show ?thesis
      by (simp add: as(1) segments_def sequential_outcomes_def segment_event_def
          filter_step_called_for [OF Cons.prems(2) st])
  qed
qed

section \<open>Many CPUs\<close>

definition finished :: "(nat \<times> system_event) list \<Rightarrow> (flow_segment \<times> xdp_action) list" where
  \<comment> \<open>the actions of a run, in the order they were returned\<close>
  "finished tr = concat (map (\<lambda>(i, e). case e of None \<Rightarrow> [] | Some p \<Rightarrow> [p]) tr)"

definition judged_history :: "flow_key \<Rightarrow> 'm system \<Rightarrow> flow_segment list" where
  \<comment> \<open>the flow's segments but for the one a CPU still holds\<close>
  "judged_history f x =
     (if \<exists>i. busy_with (sys_cpus x i) f then tl (own f (sys_arrived x)) else own f (sys_arrived x))"

lemma finished_snoc: "finished (tr @ [(i, e)]) = finished tr @ (case e of None \<Rightarrow> [] | Some p \<Rightarrow> [p])"
  by (simp add: finished_def)

lemma judged_arrive:
  assumes "sys_cpus y i = Idle" and "\<forall>j. \<not> busy_with (sys_cpus y j) (sg_flow s)"
  shows "judged_history f (arrived_on i s y) = judged_history f y"
proof (cases "sg_flow s = f")
  case True
  then show ?thesis using assms(2) by (auto simp: judged_history_def own_Cons)
next
  case False
  then have "busy_with (sys_cpus (arrived_on i s y) j) f = busy_with (sys_cpus y j) f" for j
    using assms(1) by simp
  with False show ?thesis by (simp add: judged_history_def own_Cons)
qed

lemma judged_proceed:
  assumes "task_segment (sys_cpus y i) = Some s" and "task_segment t = Some s"
  shows "judged_history f (advanced i t m y) = judged_history f y"
proof -
  have "busy_with (sys_cpus (advanced i t m y) j) f = busy_with (sys_cpus y j) f" for j
    using assms by (simp add: busy_with_segment)
  then show ?thesis by (simp add: judged_history_def)
qed

lemma judged_finish:
  assumes inv: "serial_inv True keys y" and sg: "task_segment (sys_cpus y i) = Some s"
    and own: "own (sg_flow s) (sys_arrived y) = s # hs"
  shows "judged_history f (advanced i Idle m y) =
    (if f = sg_flow s then s # judged_history f y else judged_history f y)"
    and "f = sg_flow s \<Longrightarrow> judged_history f y = hs"
proof -
  have i: "busy_with (sys_cpus y i) g \<longleftrightarrow> sg_flow s = g" for g using busy_with_segment [OF sg] .
  have hs: "judged_history (sg_flow s) y = hs"
    using i [of "sg_flow s"] own by (auto simp: judged_history_def)
  then show "f = sg_flow s \<Longrightarrow> judged_history f y = hs" by simp
  show "judged_history f (advanced i Idle m y) =
      (if f = sg_flow s then s # judged_history f y else judged_history f y)"
  proof (cases "f = sg_flow s")
    case True
    have "\<not> busy_with (sys_cpus (advanced i Idle m y) j) f" for j
      using serial_invD(1) [OF inv, of i f j] i True by auto
    with True own hs show ?thesis by (simp add: judged_history_def)
  next
    case False
    have "busy_with (sys_cpus (advanced i Idle m y) j) f = busy_with (sys_cpus y j) f" for j
      using False i by auto
    with False show ?thesis by (simp add: judged_history_def)
  qed
qed

lemma run_judgements:
  assumes t: "flow_table ops keys" and l: "lru_room ops keys n" and m: "keys m = {}"
  shows "system_run True ops (boot m) tr x \<Longrightarrow> roomy_on c n (sys_arrived x) \<Longrightarrow>
    \<forall>(i, e) \<in> set tr. i < c \<Longrightarrow> on_flow f (finished tr) = judgements (judged_history f x)"
proof (induction tr arbitrary: x rule: rev_induct)
  case Nil
  then have "x = boot m" by (auto elim: system_run.cases)
  then show ?case by (simp add: finished_def judged_history_def own_def)
next
  case (snoc p tr)
  obtain i e where p: "p = (i, e)" by fastforce
  from system_run_snocE [OF snoc.prems(1) [unfolded p]] obtain y where
    y: "system_run True ops (boot m) tr y" "system_step True ops y i e x" .
  from y(2) snoc.prems(2) have room: "roomy_on c n (sys_arrived y)"
    by (cases rule: system_stepE) simp_all
  with snoc.prems(3) l have inv: "serial_inv True keys y"
    by (intro run_serial_inv [OF t m y(1), where n = n and c = c]) simp
  have IH: "on_flow f (finished tr) = judgements (judged_history f y)"
    using snoc.IH [OF y(1) room] snoc.prems(3) by simp
  from y(2) show ?case
  proof (cases rule: system_stepE)
    case (arrive s)
    then show ?thesis by (simp add: p finished_snoc IH judged_arrive)
  next
    case (advance t' m')
    from advance(2) obtain s where sg: "task_segment (sys_cpus y i) = Some s" by (cases "sys_cpus y i") simp_all
    from task_step_progress [OF advance(3) sg] consider "e = None" "task_segment t' = Some s"
      | a where "e = Some (s, a)" "t' = Idle" by blast
    then show ?thesis
    proof cases
      case 1
      then show ?thesis by (simp add: p finished_snoc IH advance(1) judged_proceed [OF sg])
    next
      case 2
      from finished_open [OF inv y(2) [unfolded 2(1)]] obtain hs where
        hs: "own (sg_flow s) (sys_arrived y) = s # hs" and "a \<in> {XDP_PASS, XDP_DROP}"
        and "(a = XDP_PASS) = (sg_payload s = [] \<or> is_handshake (sg_payload s) \<or> kept_open s hs)"
        by (auto simp: tracks_def)
      then have a: "a = called_for s hs" unfolding called_for_def by (cases "a = XDP_PASS") auto
      note fin = judged_finish [OF inv sg hs]
      show ?thesis
        unfolding p finished_snoc advance(1) 2
        using fin(1) [of f m'] fin(2) [of f] by (simp add: IH a)
    qed
  qed
qed

section \<open>The machine\<close>

definition outcomes :: "network_types \<Rightarrow> (nat \<times> verdict_event option) list \<Rightarrow> (flow_segment \<times> xdp_action) list" where
  \<comment> \<open>the actions a run of the machine returned for segments to port 25565, in their order\<close>
  "outcomes N tr = concat (map (\<lambda>(i, e). case e of None \<Rightarrow> []
     | Some (ctx, a, logs) \<Rightarrow> segment_event N ctx a) tr)"

lemma finished_append: "finished (tr @ tr') = finished tr @ finished tr'"
  by (simp add: finished_def)

lemma outcomes_finished: "outcomes N tr = finished (concat (map (system_events N) tr))"
proof (induction tr)
  case (Cons p tr)
  have "outcomes N [p] = finished (system_events N p)"
    by (cases "(N, p)" rule: system_events.cases)
       (simp_all add: outcomes_def finished_def segment_event_def split: sum.split)
  with Cons show ?case by (simp add: finished_append) (simp add: outcomes_def)
qed (simp add: outcomes_def finished_def)

lemma machine_packets_real:
  "machine_run serial N ops x tr y \<Longrightarrow> \<forall>ctx \<in> set (mc_packets x). real_packet ctx \<Longrightarrow>
    \<forall>ctx \<in> set (mc_packets y). real_packet ctx"
  by (induction rule: machine_run.induct) (auto elim!: machine_stepE)

lemma rev_segments: "rev (segments N (rev bss)) = segments N bss"
proof -
  have "rev (case classify N bs of Inl _ \<Rightarrow> [] | Inr s \<Rightarrow> [s]) = (case classify N bs of Inl _ \<Rightarrow> [] | Inr s \<Rightarrow> [s])" for bs
    by (simp split: sum.split)
  then show ?thesis by (simp add: segments_def rev_concat rev_map [symmetric] o_def)
qed

lemma system_events_cpus:
  "\<forall>(i, e) \<in> set tr. i < c \<Longrightarrow> \<forall>(i, e) \<in> set (concat (map (system_events N) tr)). i < c"
proof (induction tr)
  case (Cons p tr)
  then have "\<forall>(i, e) \<in> set (system_events N p). i < c"
    by (cases "(N, p)" rule: system_events.cases) (auto split: sum.splits)
  with Cons show ?case by auto
qed simp

lemma no_cpus_no_packets:
  assumes "machine_run serial N ops (power_on m) tr x" and "\<forall>(i, e) \<in> set tr. i < (0 :: nat)"
  shows "packet_segments N x = []"
proof -
  from assms(2) have "tr = []" by (cases tr) auto
  with assms(1) have "x = power_on m" by (auto elim: machine_run.cases)
  then show ?thesis by (simp add: packet_segments_def segments_def)
qed

section \<open>Properties\<close>

text \<open>
  C4: the machine is as good as one CPU. Take a run on at most \<open>c\<close> CPUs that handles the packets
  of each flow one at a time, in which the open flows are never more than the entries the table
  holds without evicting, less one for each CPU. Once no packet is in progress, each flow has had
  the actions, in the order of its packets, that one CPU running \<open>verdict\<close> on all packets in the
  order of their arrival gives it, and the table remembers the same flows.
\<close>

theorem machine_is_sequential:
  assumes "header_layout N" and "lru_laws ops keys" and "lru_room ops keys n" and "keys m = {}"
    and "machine_run True N ops (power_on m) tr x" and "\<And>i. mc_cpus x i = Free"
    and "\<forall>(i, e) \<in> set tr. i < c" and "roomy_on c n (packet_segments N x)"
    and "verdicts N ops (rev (mc_packets x)) m = Inr (as, m')"
  shows "on_flow f (outcomes N tr) = on_flow f (sequential_outcomes N (rev (mc_packets x)) as) \<and>
    keys (mc_table x) = keys m'"
proof -
  let ?h = "packet_segments N x"
  note ft = flow_table.intro [OF assms(2)]
  from machine_mirror [OF assms(1,5)] obtain y where
    y: "system_run True ops (boot m) (concat (map (system_events N) tr)) y" "mirrors N x y" by blast
  note mir = mirrorsD [OF y(2)]
  have idle: "sys_cpus y i = Idle" for i using mir(1) [of i] assms(6) by simp
  have cpus: "\<forall>(i, e) \<in> set (concat (map (system_events N) tr)). i < c"
    by (rule system_events_cpus [OF assms(7)])
  have room: "roomy_on c n (sys_arrived y)" using assms(8) by (simp add: mir(3))
  have real: "\<forall>ctx \<in> set (rev (mc_packets x)). real_packet ctx"
    using machine_packets_real [OF assms(5)] by simp
  have h: "rev (segments N (map ctx_bytes (rev (mc_packets x)))) = ?h"
    by (simp add: packet_segments_def rev_map [symmetric] rev_segments)
  have "roomy n ?h"
    using roomy_on_roomy [OF assms(8)] no_cpus_no_packets [OF assms(5)] assms(7) by (cases "c = 0") auto
  with sequential_judgements [OF assms(1-3) real, of "[]" m as m'] assms(4,9) reachable.start
  have seq: "judgements ?h = sequential_outcomes N (rev (mc_packets x)) as" "reachable True ?h (keys m')"
    by (auto simp: h)
  have "on_flow f (outcomes N tr) = judgements (own f ?h)"
    using run_judgements [OF ft assms(3,4) y(1) room cpus] by (simp add: outcomes_finished judged_history_def idle mir(3))
  also have "\<dots> = on_flow f (sequential_outcomes N (rev (mc_packets x)) as)"
    by (simp flip: seq(1) add: on_flow_judgements)
  finally have 1: "on_flow f (outcomes N tr) = on_flow f (sequential_outcomes N (rev (mc_packets x)) as)" .
  have "serial_inv True keys y"
    using assms(3) room cpus by (intro run_serial_inv [OF ft assms(4) y(1), where n = n and c = c] conjI)
  from serial_invD(2) [OF this] have "g \<in> keys (sys_table y) \<longleftrightarrow> opened g (sys_arrived y)" for g
    by (simp add: idle tracks_def)
  then have "keys (mc_table x) = keys m'"
    using reachable_exact [OF seq(2)] by (auto simp: mir(2,3))
  with 1 show ?thesis ..
qed

theorem machine_is_sequential_witness:
  "\<exists>tr x as m'. machine_run True rfc_headers lru_list (power_on []) tr x \<and>
     packet_segments rfc_headers x =
       [\<lparr>sg_flow = test_flow, sg_syn = False, sg_teardown = False, sg_payload = localhost_login_wire\<rparr>] \<and>
     verdicts rfc_headers lru_list (rev (mc_packets x)) [] = Inr (as, m') \<and>
     on_flow test_flow (outcomes rfc_headers tr) =
       on_flow test_flow (sequential_outcomes rfc_headers (rev (mc_packets x)) as) \<and>
     set (mc_table x) = set m'"
proof -
  let ?s = "\<lparr>sg_flow = test_flow, sg_syn = False, sg_teardown = False, sg_payload = localhost_login_wire\<rparr>"
  have len: "length localhost_login_wire \<le> 1460" by (simp add: localhost_wire_length)
  have "runs_alone lru_list (At_syn ?s) (sys_table (boot [])) XDP_PASS [test_flow]"
    using login_runs_alone [of ?s] by simp
  from arrival_alone [OF _ this, where serial = True and i = 2] obtain tr y z where
    y: "system_run True lru_list (boot []) tr y" "system_step True lru_list y 2 (Some (?s, XDP_PASS)) z"
      "\<And>j. sys_cpus z j = Idle" "sys_arrived z = [?s]" "fst ` set tr \<subseteq> {2}" by auto
  have "system_run True lru_list (boot []) (tr @ [(2, Some (?s, XDP_PASS))]) z"
    by (rule system_run_append [OF y(1) system_run.step [OF y(2) system_run.stop]])
  moreover have "\<forall>s \<in> set (sys_arrived z). sent rfc_headers s"
    using sent_tcp_frame [OF rfc_headers_layout len] by (simp add: y(4))
  ultimately obtain tr' x where x: "machine_run True rfc_headers lru_list (power_on []) tr' x" "mirrors rfc_headers x z"
      "map fst tr' = map fst (tr @ [(2, Some (?s, XDP_PASS))])"
    using follow_run_cpus [OF rfc_headers_layout _ mirrors_boot] by metis
  from arg_cong [OF x(3), of set] y(5) have "fst ` set tr' \<subseteq> {2}" by auto
  then have cpus: "\<forall>(i, e) \<in> set tr'. i < 3" by force
  have room: "roomy_on 3 max_entries (packet_segments rfc_headers x)"
    by (simp add: mirrorsD(3) [OF x(2)] y(4) max_entries_def open_flows_def)
  have free: "mc_cpus x i = Free" for i using mirrorsD(1) [OF x(2), of i] y(3) by (simp add: stands_for_idle)
  have "\<forall>ctx \<in> set (rev (mc_packets x)). real_packet ctx"
    using machine_packets_real [OF x(1)] by simp
  then have "list_all2 packet_ctx (rev (mc_packets x)) (map ctx_bytes (rev (mc_packets x)))"
    unfolding list_all2_map2 list_all2_same .
  from verdicts_total [OF rfc_headers_layout lru.laws this, of "[]"] obtain as m' where
    v: "verdicts rfc_headers lru_list (rev (mc_packets x)) [] = Inr (as, m')" by blast
  from machine_is_sequential [OF rfc_headers_layout lru.laws lru.room _ x(1) free cpus room v, of test_flow]
  show ?thesis using x(1) v mirrorsD(3) [OF x(2)] y(4) by auto
qed

text \<open>
  C14: clients do not interfere. With room in the table, what happens to a flow depends on its own
  segments alone: in two runs that agree on them, whatever other packets come before, between and
  after, the flow has the same actions in the same order and in the end is stored in both tables
  or in neither.
\<close>

theorem flows_do_not_interfere:
  assumes "header_layout N" and "lru_laws ops keys" and "lru_room ops keys n" and "keys m = {}"
    and "\<forall>ctx \<in> set (ctxs @ ctxs'). real_packet ctx"
    and "roomy n (rev (segments N (map ctx_bytes ctxs)))" and "roomy n (rev (segments N (map ctx_bytes ctxs')))"
    and "own f (segments N (map ctx_bytes ctxs)) = own f (segments N (map ctx_bytes ctxs'))"
    and "verdicts N ops ctxs m = Inr (as, m1)" and "verdicts N ops ctxs' m = Inr (as', m2)"
  shows "on_flow f (sequential_outcomes N ctxs as) = on_flow f (sequential_outcomes N ctxs' as') \<and>
    (f \<in> keys m1 \<longleftrightarrow> f \<in> keys m2)"
proof -
  have start: "reachable True [] (keys m)" by (simp add: assms(4) reachable.start)
  have run: "on_flow f (sequential_outcomes N cs bs) = judgements (own f (rev (segments N (map ctx_bytes cs)))) \<and>
      (f \<in> keys mm \<longleftrightarrow> opened f (own f (rev (segments N (map ctx_bytes cs)))))"
    if "\<forall>ctx \<in> set cs. real_packet ctx" "roomy n (rev (segments N (map ctx_bytes cs)))"
      "verdicts N ops cs m = Inr (bs, mm)" for cs bs mm
    using sequential_judgements [OF assms(1-3) that(1) start _ that(3)] that(2)
      reachable_exact [of "rev (segments N (map ctx_bytes cs))" "keys mm" f]
    by (simp add: on_flow_judgements [symmetric] opened_own)
  have "own f (rev h) = rev (own f h)" for h by (simp add: own_def rev_filter)
  with run [of ctxs as m1] run [of ctxs' as' m2] assms(5-10) show ?thesis by simp
qed

theorem flows_do_not_interfere_witness:
  "\<exists>as m1 as' m2. verdicts rfc_headers lru_list [test_ctx localhost_login_wire] [] = Inr (as, m1) \<and>
     verdicts rfc_headers lru_list [fake_packet_ctx 4096 [], test_ctx localhost_login_wire] [] = Inr (as', m2) \<and>
     (test_flow \<in> set m1 \<longleftrightarrow> test_flow \<in> set m2)"
proof -
  let ?c = "test_ctx localhost_login_wire" and ?e = "fake_packet_ctx 4096 []"
  have "length localhost_login_wire \<le> 1460" by (simp add: localhost_wire_length)
  note f = test_frame_segment [OF this]
  have e: "packet_ctx ?e []" using fake_packet_ctx [of 4096 "[]"] by (simp add: headroom_def)
  note b = packet_ctx_bytes [OF f(1)] packet_ctx_bytes [OF e]
  have ce: "classify rfc_headers [] = Inl XDP_ABORTED" by (simp add: classify_def)
  have p: "list_all2 packet_ctx [?c] [tcp_frame localhost_login_wire]"
    "list_all2 packet_ctx [?e, ?c] [[], tcp_frame localhost_login_wire]" by (simp_all add: f(1) e)
  from verdicts_total [OF rfc_headers_layout lru.laws p(1), of "[]"]
    verdicts_total [OF rfc_headers_layout lru.laws p(2), of "[]"] obtain as m1 as' m2 where
    v: "verdicts rfc_headers lru_list [?c] [] = Inr (as, m1)" "verdicts rfc_headers lru_list [?e, ?c] [] = Inr (as', m2)"
    by blast
  have "test_flow \<in> set m1 \<longleftrightarrow> test_flow \<in> set m2"
    by (rule conjunct2, rule flows_do_not_interfere [OF rfc_headers_layout lru.laws lru.room _ _ _ _ _ v])
       (simp_all add: b f e ce segments_def open_flows_def fits_def max_entries_def)
  with v show ?thesis by blast
qed

end
