(* ===== verification/Fair_Runs.thy ===== *)
theory Fair_Runs
  imports Machine_Safety
begin

text \<open>
  Runs of the machine without end, driven by a schedule: which CPU the kernel lets go on at each
  point of time, and the packet there is for it if it is free. A turn is a function, and a fault
  is a value of it, so that running on is proved and not presupposed. Nothing is asked of the
  schedule but that its packets are packets; a CPU that comes up again and again answers every
  packet it takes, within its next four turns.
\<close>

section \<open>Turns\<close>

definition machine_turn ::
  "network_types \<Rightarrow> (flow_key, 'm) lru_map \<Rightarrow> nat \<times> xdp_context option \<Rightarrow> 'm machine \<Rightarrow>
   ('m machine \<times> verdict_event option, unit) outcome" where
  \<comment> \<open>a busy CPU goes on to its next call on the map, a free one takes the packet if there is one\<close>
  "machine_turn N ops turn x = (case turn of (i, packet) \<Rightarrow>
     if mc_cpus x i \<noteq> Free
     then and_then (call_step ops (mc_cpus x i) (mc_table x)) (\<lambda>(c, m, e). Inr (proceed i c m x, e))
     else case packet of None \<Rightarrow> Inr (x, None)
       | Some ctx \<Rightarrow> and_then (verdict_head N ctx) (\<lambda>head. case head of
           Inl (action, logs) \<Rightarrow> Inr (receive i ctx Free x, Some (ctx, action, logs))
         | Inr c \<Rightarrow> Inr (receive i ctx (Syn_check c) x, None)))"

fun machine_at ::
  "network_types \<Rightarrow> (flow_key, 'm) lru_map \<Rightarrow> (nat \<Rightarrow> nat \<times> xdp_context option) \<Rightarrow> 'm \<Rightarrow> nat \<Rightarrow>
   ('m machine, unit) outcome" where
  "machine_at N ops sched m 0 = Inr (power_on m)"
| "machine_at N ops sched m (Suc n) =
     and_then (machine_at N ops sched m n) (\<lambda>x. and_then (machine_turn N ops (sched n) x) (\<lambda>(x, e). Inr x))"

definition event_at ::
  "network_types \<Rightarrow> (flow_key, 'm) lru_map \<Rightarrow> (nat \<Rightarrow> nat \<times> xdp_context option) \<Rightarrow> 'm \<Rightarrow> nat \<Rightarrow>
   (verdict_event option, unit) outcome" where
  "event_at N ops sched m n =
     and_then (machine_at N ops sched m n) (\<lambda>x. and_then (machine_turn N ops (sched n) x) (\<lambda>(x, e). Inr e))"

definition turns_of :: "nat \<Rightarrow> (nat \<Rightarrow> nat \<times> xdp_context option) \<Rightarrow> nat \<Rightarrow> nat \<Rightarrow> nat" where
  \<comment> \<open>how many turns a CPU has from time \<open>n\<close> to time \<open>k\<close>, both included\<close>
  "turns_of i sched n k = length (filter (\<lambda>j. fst (sched j) = i) [n..<Suc k])"

abbreviation real_schedule :: "(nat \<Rightarrow> nat \<times> xdp_context option) \<Rightarrow> bool" where
  "real_schedule sched \<equiv> (\<forall>n i ctx. sched n = (i, Some ctx) \<longrightarrow> real_packet ctx)"

section \<open>No turn faults\<close>

lemma turn_step:
  assumes "machine_turn N ops (i, packet) x = Inr (y, e)" and "\<And>ctx. packet = Some ctx \<Longrightarrow> real_packet ctx"
  shows "mc_cpus x i = Free \<and> packet = None \<and> y = x \<and> e = None \<or> machine_step False N ops x i e y"
proof (cases "mc_cpus x i = Free")
  case True
  show ?thesis
  proof (cases packet)
    case None
    with True assms(1) show ?thesis by (simp add: machine_turn_def)
  next
    case (Some ctx)
    with assms(1) True obtain head where h: "verdict_head N ctx = Inr head"
      by (auto simp: machine_turn_def and_then_Inr_iff)
    show ?thesis
    proof (cases head)
      case (Inl r)
      obtain action logs where "r = (action, logs)" by fastforce
      with machine_step.settle [OF True assms(2) [OF Some]] h Some True assms(1) Inl show ?thesis
        by (auto simp: machine_turn_def)
    next
      case (Inr c)
      with machine_step.accept [OF True assms(2) [OF Some], of N c False] h Some True assms(1) show ?thesis
        by (auto simp: machine_turn_def)
    qed
  qed
next
  case False
  with assms(1) obtain c m where "call_step ops (mc_cpus x i) (mc_table x) = Inr (c, m, e)" "y = proceed i c m x"
    by (auto simp: machine_turn_def and_then_Inr_iff)
  with machine_step.proceed [OF False, of ops c m e] show ?thesis by simp
qed

lemma turn_total:
  assumes N: "header_layout N" and mir: "mirrors N x y" and p: "\<And>ctx. packet = Some ctx \<Longrightarrow> real_packet ctx"
  shows "\<exists>x' e y'. machine_turn N ops (i, packet) x = Inr (x', e) \<and> mirrors N x' y'"
proof -
  have "\<exists>x' e. machine_turn N ops (i, packet) x = Inr (x', e)"
  proof (cases "mc_cpus x i = Free")
    case True
    show ?thesis
    proof (cases packet)
      case (Some ctx)
      from verdict_head_cases [OF N p [OF Some]] show ?thesis
        by cases (auto simp: machine_turn_def True Some)
    qed (simp add: machine_turn_def True)
  next
    case False
    from mirrored_cpu_steps [OF mir] obtain c m e where "call_step ops (mc_cpus x i) (mc_table x) = Inr (c, m, e)"
      by blast
    with False show ?thesis by (simp add: machine_turn_def)
  qed
  then obtain x' e where t: "machine_turn N ops (i, packet) x = Inr (x', e)" by blast
  from turn_step [OF t p] mirror_step [OF N mir, of False ops i e x'] mir have "\<exists>y'. mirrors N x' y'" by blast
  with t show ?thesis by blast
qed

lemma machine_at_total:
  assumes N: "header_layout N" and s: "real_schedule sched"
  shows "\<exists>x y. machine_at N ops sched m n = Inr x \<and> mirrors N x y"
proof (induction n)
  case 0
  then show ?case using mirrors_boot by fastforce
next
  case (Suc n)
  then obtain x y where x: "machine_at N ops sched m n = Inr x" "mirrors N x y" by blast
  obtain i packet where i: "sched n = (i, packet)" by fastforce
  from s i have "real_packet ctx" if "packet = Some ctx" for ctx using that by blast
  from turn_total [OF N x(2) this, where ops = ops and i = i] obtain x' e y' where
    "machine_turn N ops (sched n) x = Inr (x', e)" "mirrors N x' y'" unfolding i by blast
  with x(1) show ?case by auto
qed

lemma turn_at:
  assumes "header_layout N" and "real_schedule sched" and "machine_at N ops sched m n = Inr x"
  obtains y e where "machine_turn N ops (sched n) x = Inr (y, e)"
    and "machine_at N ops sched m (Suc n) = Inr y" and "event_at N ops sched m n = Inr e"
    and "mc_cpus x (fst (sched n)) = Free \<and> snd (sched n) = None \<and> y = x \<and> e = None \<or>
      machine_step False N ops x (fst (sched n)) e y"
proof -
  from machine_at_total [OF assms(1,2), of ops m "Suc n"] assms(3) obtain y e where
    t: "machine_turn N ops (sched n) x = Inr (y, e)" by (auto simp: and_then_Inr_iff)
  moreover have "mc_cpus x (fst (sched n)) = Free \<and> snd (sched n) = None \<and> y = x \<and> e = None \<or>
      machine_step False N ops x (fst (sched n)) e y"
    using turn_step [of N ops "fst (sched n)" "snd (sched n)" x y e] t assms(2) by (metis prod.collapse)
  ultimately show thesis using that assms(3) by (simp add: event_at_def)
qed

section \<open>Every packet is answered\<close>

lemma waits_unchanged:
  assumes "header_layout N" and "real_schedule sched" and "machine_at N ops sched m n = Inr x" and "n \<le> k"
    and "\<And>j. n \<le> j \<Longrightarrow> j < k \<Longrightarrow> fst (sched j) \<noteq> i"
  shows "\<exists>y. machine_at N ops sched m k = Inr y \<and> mc_cpus y i = mc_cpus x i"
  using assms(4,5)
proof (induction k rule: dec_induct)
  case base
  with assms(3) show ?case by simp
next
  case (step k)
  then obtain y where y: "machine_at N ops sched m k = Inr y" "mc_cpus y i = mc_cpus x i" by auto
  from turn_at [OF assms(1,2) y(1)] obtain z e where
    z: "machine_at N ops sched m (Suc k) = Inr z" "z = y \<or> machine_step False N ops y (fst (sched k)) e z" by metis
  from step.prems [of k] step.hyps have "fst (sched k) \<noteq> i" by simp
  with z y(2) machine_other_cpu [of False N ops y "fst (sched k)" e z i] show ?case by auto
qed

lemma next_turn:
  fixes sched :: "nat \<Rightarrow> nat \<times> xdp_context option"
  assumes "\<forall>n. \<exists>k \<ge> n. fst (sched k) = i"
  obtains k where "n \<le> k" and "fst (sched k) = i" and "\<And>j. n \<le> j \<Longrightarrow> j < k \<Longrightarrow> fst (sched j) \<noteq> i"
proof -
  define k where "k = (LEAST k. n \<le> k \<and> fst (sched k) = i)"
  from assms obtain k0 where "n \<le> k0 \<and> fst (sched k0) = i" by blast
  from LeastI [of "\<lambda>k. n \<le> k \<and> fst (sched k) = i", OF this]
  have "n \<le> k" "fst (sched k) = i" by (simp_all add: k_def)
  moreover have "fst (sched j) \<noteq> i" if "n \<le> j" "j < k" for j
    using not_less_Least [of j "\<lambda>k. n \<le> k \<and> fst (sched k) = i", folded k_def] that by blast
  ultimately show thesis by (rule that)
qed

lemma turns_of_first:
  assumes "n \<le> k" and "k < l" and "fst (sched k) = i" and "\<And>j. n \<le> j \<Longrightarrow> j < k \<Longrightarrow> fst (sched j) \<noteq> i"
  shows "turns_of i sched n l = Suc (turns_of i sched (Suc k) l)"
    and "turns_of i sched n k = 1"
proof -
  have "filter (\<lambda>j. fst (sched j) = i) [n..<k] = []" using assms(4) by (simp add: filter_empty_conv)
  moreover have "[n..<Suc l] = [n..<k] @ k # [Suc k..<Suc l]" "[n..<Suc k] = [n..<k] @ [k]"
    using assms(1,2) upt_add_eq_append [of n k "Suc l - k"] by (simp_all add: upt_conv_Cons)
  ultimately show "turns_of i sched n l = Suc (turns_of i sched (Suc k) l)" "turns_of i sched n k = 1"
    using assms(3) by (simp_all only: turns_of_def filter_append filter.simps) simp_all
qed

lemma busy_answered:
  assumes N: "header_layout N" and s: "real_schedule sched" and f: "\<forall>n. \<exists>k \<ge> n. fst (sched k) = i"
  shows "machine_at N ops sched m n = Inr x \<Longrightarrow> cpu_call (mc_cpus x i) = Some c \<Longrightarrow>
    \<exists>k \<ge> n. fst (sched k) = i \<and> turns_of i sched n k \<le> cpu_calls_left (mc_cpus x i) \<and>
      (\<exists>a logs. event_at N ops sched m k = Inr (Some (cl_ctx c, a, logs)))"
proof (induction "cpu_calls_left (mc_cpus x i)" arbitrary: n x c rule: less_induct)
  case less
  from next_turn [OF f, of n] obtain k where
    k: "n \<le> k" "fst (sched k) = i" "\<And>j. n \<le> j \<Longrightarrow> j < k \<Longrightarrow> fst (sched j) \<noteq> i" by blast
  from waits_unchanged [OF N s less.prems(1) k(1,3)] obtain y where
    y: "machine_at N ops sched m k = Inr y" "mc_cpus y i = mc_cpus x i" by blast
  from turn_at [OF N s y(1)] obtain z e where
    z: "machine_at N ops sched m (Suc k) = Inr z" "event_at N ops sched m k = Inr e"
      "mc_cpus y i = Free \<or> machine_step False N ops y i e z" unfolding k(2) by metis
  have "0 < cpu_calls_left (mc_cpus x i)" using less.prems(2) by (cases "mc_cpus x i") simp_all
  then have 1: "turns_of i sched n k \<le> cpu_calls_left (mc_cpus x i)"
    using turns_of_first(2) [of n k "Suc k" sched i] k by simp
  from z(3) less.prems(2) y(2) have "machine_step False N ops y i e z" by auto
  from machine_busy_cpu [OF this] less.prems(2) consider
    a logs where "e = Some (cl_ctx c, a, logs)"
    | c' where "cpu_call (mc_cpus z i) = Some c'" "cl_ctx c' = cl_ctx c"
      "cpu_calls_left (mc_cpus z i) < cpu_calls_left (mc_cpus x i)"
    unfolding y(2) by blast
  then show ?case
  proof cases
    case 1
    with k z(2) \<open>turns_of i sched n k \<le> _\<close> show ?thesis by blast
  next
    case 2
    from less.hyps [OF 2(3) z(1) 2(1)] 2(2) obtain l a logs where
      l: "Suc k \<le> l" "fst (sched l) = i" "turns_of i sched (Suc k) l \<le> cpu_calls_left (mc_cpus z i)"
        "event_at N ops sched m l = Inr (Some (cl_ctx c, a, logs))" by auto
    have "turns_of i sched n l \<le> cpu_calls_left (mc_cpus x i)"
      using turns_of_first(1) [of n k l sched i] k l(1,3) 2(3) by simp
    moreover have "n \<le> l" using k(1) l(1) by simp
    ultimately show ?thesis using l(2,4) by blast
  qed
qed

section \<open>Property\<close>

text \<open>
  C12: whichever CPU the kernel lets go on at each point of time and whatever packets come, no
  turn ever faults: no integer overflows and nothing outside a packet is read, for ever. And a
  CPU that comes up again and again returns an action for every packet it takes, at the turn
  that takes it or within its next four.
\<close>

theorem fair_runs_answer_all:
  assumes "header_layout N" and "\<forall>n i ctx. sched n = (i, Some ctx) \<longrightarrow> real_packet ctx"
  shows "(\<forall>n. \<exists>x e. machine_at N ops sched m n = Inr x \<and> event_at N ops sched m n = Inr e) \<and>
    (\<forall>n i ctx x. sched n = (i, Some ctx) \<and> machine_at N ops sched m n = Inr x \<and> mc_cpus x i = Free \<and>
       (\<forall>n. \<exists>k \<ge> n. fst (sched k) = i) \<longrightarrow>
       (\<exists>k \<ge> n. fst (sched k) = i \<and> turns_of i sched (Suc n) k \<le> 4 \<and>
          (\<exists>a logs. event_at N ops sched m k = Inr (Some (ctx, a, logs)))))"
proof (intro conjI allI impI)
  fix n
  from machine_at_total [OF assms, of ops m n] obtain x where x: "machine_at N ops sched m n = Inr x" by blast
  with turn_at [OF assms x] show "\<exists>x e. machine_at N ops sched m n = Inr x \<and> event_at N ops sched m n = Inr e"
    by metis
next
  fix n i ctx x
  assume a: "sched n = (i, Some ctx) \<and> machine_at N ops sched m n = Inr x \<and> mc_cpus x i = Free \<and>
    (\<forall>n. \<exists>k \<ge> n. fst (sched k) = i)"
  then have x: "machine_at N ops sched m n = Inr x" by blast
  from turn_at [OF assms x] a obtain y e where
    y: "machine_at N ops sched m (Suc n) = Inr y" "event_at N ops sched m n = Inr e"
      "machine_turn N ops (i, Some ctx) x = Inr (y, e)" by metis
  from assms(2) a have p: "real_packet ctx" by blast
  show "\<exists>k \<ge> n. fst (sched k) = i \<and> turns_of i sched (Suc n) k \<le> 4 \<and>
      (\<exists>a logs. event_at N ops sched m k = Inr (Some (ctx, a, logs)))"
  proof (cases rule: verdict_head_cases [OF assms(1) p])
    case (1 action logs)
    with y(2,3) a have "event_at N ops sched m n = Inr (Some (ctx, action, logs))"
      by (simp add: machine_turn_def)
    then show ?thesis using a by (intro exI [of _ n]) (auto simp: turns_of_def)
  next
    case (2 s c)
    with y(3) a have "cpu_call (mc_cpus y i) = Some c" by (auto simp: machine_turn_def)
    from busy_answered [OF assms _ y(1) this] a 2(3) obtain k where
      "Suc n \<le> k" "fst (sched k) = i" "turns_of i sched (Suc n) k \<le> cpu_calls_left (mc_cpus y i)"
      "\<exists>a logs. event_at N ops sched m k = Inr (Some (ctx, a, logs))" by blast
    moreover from this(1) have "n \<le> k" by simp
    ultimately show ?thesis using cpu_calls_left_le order_trans by blast
  qed
qed

theorem fair_runs_answer_all_witness:
  "\<exists>k a logs. event_at rfc_headers lru_list (\<lambda>n. (n mod 2, Some (fake_packet_ctx 4096 syn_frame))) [] k =
     Inr (Some (fake_packet_ctx 4096 syn_frame, a, logs))"
proof -
  let ?sched = "\<lambda>n :: nat. (n mod 2, Some (fake_packet_ctx 4096 syn_frame))"
  have real: "\<forall>n i ctx. ?sched n = (i, Some ctx) \<longrightarrow> real_packet ctx"
    using real_packetI [OF syn_frame_ctx] by simp
  have often: "\<forall>n. \<exists>k \<ge> n. fst (?sched k) = 0"
  proof
    fix n :: nat
    have "n \<le> 2 * n \<and> fst (?sched (2 * n)) = 0" by simp
    then show "\<exists>k \<ge> n. fst (?sched k) = 0" by blast
  qed
  have start: "?sched 0 = (0, Some (fake_packet_ctx 4096 syn_frame)) \<and>
      machine_at rfc_headers lru_list ?sched [] 0 = Inr (power_on []) \<and> mc_cpus (power_on []) 0 = Free"
    by simp
  have "\<exists>k \<ge> 0. fst (?sched k) = 0 \<and> turns_of 0 ?sched (Suc 0) k \<le> 4 \<and>
      (\<exists>a logs. event_at rfc_headers lru_list ?sched [] k = Inr (Some (fake_packet_ctx 4096 syn_frame, a, logs)))"
    by (rule fair_runs_answer_all [OF rfc_headers_layout real, THEN conjunct2, rule_format])
       (use start often in blast)
  then show ?thesis by blast
qed

end
