(* ===== verification/Utf8.thy ===== *)
theory Utf8
  imports Sniffer_Prelude
begin

text \<open>
  \<open>core::str::from_utf8\<close>, the one function of the standard library that decides
  something for the slice parser: which byte strings are UTF-8. A \<open>&str\<close> is its bytes.
  The validation is the one the standard documents (Unicode, table 3-7): no overlong form,
  no surrogate, nothing above U+10FFFF. The last lemma ties the validator to the encoding itself: it
  accepts exactly the concatenated encodings of Unicode scalar values.
\<close>

definition utf8_tail :: "u8 \<Rightarrow> bool" where
  "utf8_tail b \<longleftrightarrow> 0x80 \<le> b \<and> b \<le> 0xBF"

definition utf8_second3 :: "u8 \<Rightarrow> u8 \<Rightarrow> bool" where
  "utf8_second3 a b \<longleftrightarrow>
     (if a = 0xE0 then 0xA0 \<le> b \<and> b \<le> 0xBF
      else if a = 0xED then 0x80 \<le> b \<and> b \<le> 0x9F
      else utf8_tail b)"

definition utf8_second4 :: "u8 \<Rightarrow> u8 \<Rightarrow> bool" where
  "utf8_second4 a b \<longleftrightarrow>
     (if a = 0xF0 then 0x90 \<le> b \<and> b \<le> 0xBF
      else if a = 0xF4 then 0x80 \<le> b \<and> b \<le> 0x8F
      else utf8_tail b)"

fun utf8_valid :: "bytes \<Rightarrow> bool" where
  "utf8_valid [] = True"
| "utf8_valid (a # bs) =
     (if a < 0x80 then utf8_valid bs
      else if 0xC2 \<le> a \<and> a \<le> 0xDF then
        (case bs of b # r \<Rightarrow> utf8_tail b \<and> utf8_valid r | _ \<Rightarrow> False)
      else if 0xE0 \<le> a \<and> a \<le> 0xEF then
        (case bs of b # c # r \<Rightarrow> utf8_second3 a b \<and> utf8_tail c \<and> utf8_valid r | _ \<Rightarrow> False)
      else if 0xF0 \<le> a \<and> a \<le> 0xF4 then
        (case bs of b # c # d # r \<Rightarrow>
           utf8_second4 a b \<and> utf8_tail c \<and> utf8_tail d \<and> utf8_valid r | _ \<Rightarrow> False)
      else False)"

definition str_from_utf8 :: "bytes \<Rightarrow> bytes option" where
  "str_from_utf8 bs = (if utf8_valid bs then Some bs else None)"

lemma utf8_ascii: "list_all (\<lambda>b. b < 0x80) bs \<Longrightarrow> utf8_valid bs"
  by (induction bs) simp_all

section \<open>The encoding\<close>

definition unicode_scalar :: "nat \<Rightarrow> bool" where
  "unicode_scalar c \<longleftrightarrow> c < 0xD800 \<or> 0xE000 \<le> c \<and> c \<le> 0x10FFFF"

definition utf8_encode :: "nat \<Rightarrow> bytes" where
  "utf8_encode c = map word_of_nat
     (if c < 0x80 then [c]
      else if c < 0x800 then [0xC0 + c div 64, 0x80 + c mod 64]
      else if c < 0x10000 then [0xE0 + c div 4096, 0x80 + c div 64 mod 64, 0x80 + c mod 64]
      else [0xF0 + c div 262144, 0x80 + c div 4096 mod 64, 0x80 + c div 64 mod 64, 0x80 + c mod 64])"

section \<open>Every encoding is valid\<close>

lemmas u8_order = word_le_nat_alt word_less_nat_alt word_unat_eq_iff

lemma unat_byte: "n < 256 \<Longrightarrow> unat (word_of_nat n :: u8) = n"
  by (simp add: unat_of_nat)

lemma byte_of_unat: "unat (a :: u8) = n \<Longrightarrow> word_of_nat n = a"
  by auto

lemma utf8_tail_iff: "utf8_tail b \<longleftrightarrow> 128 \<le> unat b \<and> unat b \<le> 191"
  by (simp add: utf8_tail_def u8_order)

lemma six_bits:
  "c div 64 = 64 * (c div 4096) + c div 64 mod 64"
  "c div 4096 = 64 * (c div 262144) + c div 4096 mod 64" for c :: nat
  using div_mult2_eq [of c 64 64] div_mult2_eq [of c 4096 64]
    mult_div_mod_eq [of 64 "c div 64"] mult_div_mod_eq [of 64 "c div 4096"] by simp_all

lemma utf8_encode_valid:
  assumes "unicode_scalar c"
  shows "utf8_valid (utf8_encode c @ bs) = utf8_valid bs"
proof -
  consider "c < 0x80" | "0x80 \<le> c" "c < 0x800" | "0x800 \<le> c" "c < 0x10000" | "0x10000 \<le> c" by linarith
  then show ?thesis
  proof cases
    case 1
    then show ?thesis by (simp add: utf8_encode_def u8_order unat_byte)
  next
    case 2
    then have "2 \<le> c div 64" "c div 64 < 32" by linarith+
    moreover have "c mod 64 < 64" by simp
    ultimately show ?thesis using 2
      by (simp add: utf8_encode_def u8_order unat_byte utf8_tail_iff del: mod_less_divisor of_nat_add)
  next
    case 3
    have d: "c div 4096 < 16" "c mod 64 < 64" "c div 64 mod 64 < 64" using 3 by linarith+
    have "c div 4096 = 0 \<Longrightarrow> 32 \<le> c div 64 mod 64"
      using 3 six_bits(1) [of c] by linarith
    moreover have "c div 4096 = 13 \<Longrightarrow> c div 64 mod 64 < 32"
      using assms 3 six_bits(1) [of c] unfolding unicode_scalar_def by linarith
    ultimately show ?thesis using 3 d
      by (auto simp: utf8_encode_def u8_order unat_byte utf8_tail_iff utf8_second3_def simp del: mod_less_divisor of_nat_add)
  next
    case 4
    then have c: "c < 0x110000" using assms by (auto simp: unicode_scalar_def)
    have d: "c div 262144 \<le> 4" "c mod 64 < 64" "c div 64 mod 64 < 64" "c div 4096 mod 64 < 64" using c by linarith+
    have "c div 262144 = 0 \<Longrightarrow> 16 \<le> c div 4096 mod 64"
      using 4 six_bits(2) [of c] by linarith
    moreover have "c div 262144 = 4 \<Longrightarrow> c div 4096 mod 64 < 16"
      using c six_bits(2) [of c] by linarith
    ultimately show ?thesis using 4 d
      by (auto simp: utf8_encode_def u8_order unat_byte utf8_tail_iff utf8_second4_def simp del: mod_less_divisor of_nat_add)
  qed
qed

section \<open>Everything valid is an encoding\<close>

lemma shift64: "y < 64 \<Longrightarrow> (x * 64 + y) div 64 = x" "y < 64 \<Longrightarrow> (x * 64 + y) mod 64 = y" for x y :: nat
  by simp_all

lemma div_4096: "c div 4096 = c div 64 div 64" "c div 262144 = c div 64 div 64 div 64" for c :: nat
  by (simp_all add: div_mult2_eq [symmetric])

lemma utf8_second3_iff:
  "utf8_second3 a b \<longleftrightarrow> 128 \<le> unat b \<and> unat b \<le> 191 \<and>
     (unat a = 224 \<longrightarrow> 160 \<le> unat b) \<and> (unat a = 237 \<longrightarrow> unat b \<le> 159)"
  by (auto simp: utf8_second3_def utf8_tail_iff u8_order)

lemma utf8_second4_iff:
  "utf8_second4 a b \<longleftrightarrow> 128 \<le> unat b \<and> unat b \<le> 191 \<and>
     (unat a = 240 \<longrightarrow> 144 \<le> unat b) \<and> (unat a = 244 \<longrightarrow> unat b \<le> 143)"
  by (auto simp: utf8_second4_def utf8_tail_iff u8_order)

lemma utf8_decode2:
  assumes "0xC2 \<le> a" "a \<le> 0xDF" "utf8_tail b"
  shows "\<exists>c. unicode_scalar c \<and> [a, b] = utf8_encode c"
proof -
  obtain x y where x: "unat a = 192 + x" "2 \<le> x" "x < 32" and y: "unat b = 128 + y" "y < 64"
    using assms by (auto simp: utf8_tail_iff u8_order dest!: le_Suc_ex)
  have "word_of_nat (192 + x) = a" "word_of_nat (128 + y) = b"
    using x y by (simp_all only: byte_of_unat)
  moreover have "(x * 64 + y) div 64 = x" "(x * 64 + y) mod 64 = y" using y by simp_all
  ultimately have "utf8_encode (x * 64 + y) = [a, b]" using x y
    by (simp add: utf8_encode_def del: of_nat_add)
  moreover have "unicode_scalar (x * 64 + y)" using x y by (simp add: unicode_scalar_def)
  ultimately show ?thesis by metis
qed

lemma utf8_decode3:
  assumes "0xE0 \<le> a" "a \<le> 0xEF" "utf8_second3 a b" "utf8_tail c"
  shows "\<exists>k. unicode_scalar k \<and> [a, b, c] = utf8_encode k"
proof -
  obtain x y z where x: "unat a = 224 + x" "x < 16" and y: "unat b = 128 + y" "y < 64" and z: "unat c = 128 + z" "z < 64"
    using assms by (auto simp: utf8_tail_iff utf8_second3_iff u8_order dest!: le_Suc_ex)
  have s: "x = 0 \<Longrightarrow> 32 \<le> y" "x = 13 \<Longrightarrow> y < 32"
    using assms(3) x y by (auto simp: utf8_second3_iff)
  let ?k = "(x * 64 + y) * 64 + z"
  have "word_of_nat (224 + x) = a" "word_of_nat (128 + y) = b" "word_of_nat (128 + z) = c"
    using x y z by (simp_all only: byte_of_unat)
  moreover have "?k div 64 = x * 64 + y" "?k mod 64 = z" "(x * 64 + y) mod 64 = y" "?k div 4096 = x"
    by (simp_all only: div_4096 shift64 y z)
  moreover have "2048 \<le> ?k" "?k < 65536" using x y z s(1) by (cases "x = 0", simp_all)
  ultimately have "utf8_encode ?k = [a, b, c]"
    by (simp add: utf8_encode_def del: of_nat_add)
  moreover have "unicode_scalar ?k" using x y z s(2) unfolding unicode_scalar_def by (cases "x < 13"; cases "x = 13"; simp)
  ultimately show ?thesis by metis
qed

lemma utf8_decode4:
  assumes "0xF0 \<le> a" "a \<le> 0xF4" "utf8_second4 a b" "utf8_tail c" "utf8_tail d"
  shows "\<exists>k. unicode_scalar k \<and> [a, b, c, d] = utf8_encode k"
proof -
  obtain x y z w where x: "unat a = 240 + x" "x \<le> 4" and y: "unat b = 128 + y" "y < 64"
    and z: "unat c = 128 + z" "z < 64" and w: "unat d = 128 + w" "w < 64"
    using assms by (auto simp: utf8_tail_iff utf8_second4_iff u8_order dest!: le_Suc_ex)
  have s: "x = 0 \<Longrightarrow> 16 \<le> y" "x = 4 \<Longrightarrow> y < 16"
    using assms(3) x y by (auto simp: utf8_second4_iff)
  let ?k = "((x * 64 + y) * 64 + z) * 64 + w"
  have "word_of_nat (240 + x) = a" "word_of_nat (128 + y) = b" "word_of_nat (128 + z) = c" "word_of_nat (128 + w) = d"
    using x y z w by (simp_all only: byte_of_unat)
  moreover have "?k div 64 = (x * 64 + y) * 64 + z" "?k mod 64 = w" "((x * 64 + y) * 64 + z) mod 64 = z"
    "?k div 4096 = x * 64 + y" "(x * 64 + y) mod 64 = y" "?k div 262144 = x"
    by (simp_all only: div_4096 shift64 y z w)
  moreover have "65536 \<le> ?k" using y z w s(1) by (cases "x = 0") simp_all
  ultimately have "utf8_encode ?k = [a, b, c, d]"
    by (simp add: utf8_encode_def del: of_nat_add)
  moreover have "unicode_scalar ?k" using x y z w s(2) \<open>65536 \<le> ?k\<close> unfolding unicode_scalar_def by (cases "x = 4"; simp)
  ultimately show ?thesis by metis
qed

lemma utf8_valid_decodes: "utf8_valid bs \<Longrightarrow> \<exists>cs. list_all unicode_scalar cs \<and> bs = concat (map utf8_encode cs)"
proof (induction bs rule: utf8_valid.induct)
  case 1
  show ?case by (intro exI [of _ "[]"]) simp
next
  case (2 a bs)
  have step: "\<exists>cs. list_all unicode_scalar cs \<and> us @ r = concat (map utf8_encode cs)"
    if "\<exists>c. unicode_scalar c \<and> us = utf8_encode c"
      "\<exists>cs. list_all unicode_scalar cs \<and> r = concat (map utf8_encode cs)" for us r
    using that by (metis list.pred_inject(2) list.simps(9) concat.simps(2))
  consider "a < 0x80" "utf8_valid bs"
    | b r where "\<not> a < 0x80" "0xC2 \<le> a" "a \<le> 0xDF" "bs = b # r" "utf8_tail b" "utf8_valid r"
    | b c r where "\<not> a < 0x80" "\<not> (0xC2 \<le> a \<and> a \<le> 0xDF)" "0xE0 \<le> a" "a \<le> 0xEF" "bs = b # c # r"
        "utf8_second3 a b" "utf8_tail c" "utf8_valid r"
    | b c d r where "\<not> a < 0x80" "\<not> (0xC2 \<le> a \<and> a \<le> 0xDF)" "\<not> (0xE0 \<le> a \<and> a \<le> 0xEF)" "0xF0 \<le> a" "a \<le> 0xF4"
        "bs = b # c # d # r" "utf8_second4 a b" "utf8_tail c" "utf8_tail d" "utf8_valid r"
    using "2.prems" by (auto split: if_splits list.splits)
  then show ?case
  proof cases
    case 1
    have "\<exists>c. unicode_scalar c \<and> [a] = utf8_encode c"
      using 1(1) by (intro exI [of _ "unat a"]) (simp add: unicode_scalar_def utf8_encode_def word_less_nat_alt)
    from step [OF this "2.IH"(1) [OF 1]] show ?thesis by simp
  next
    case 2
    from step [OF utf8_decode2 [OF 2(2,3,5)], of r] "2.IH"(2) [of b r] 2 show ?thesis by simp
  next
    case 3
    from step [OF utf8_decode3 [OF 3(3,4,6,7)], of r] "2.IH"(3) 3
    show ?thesis by simp
  next
    case 4
    from step [OF utf8_decode4 [OF 4(4,5,7,8,9)], of r] "2.IH"(4) 4 show ?thesis by simp
  qed
qed

lemma utf8_valid_iff:
  "utf8_valid bs \<longleftrightarrow> (\<exists>cs. list_all unicode_scalar cs \<and> bs = concat (map utf8_encode cs))"
proof
  assume "\<exists>cs. list_all unicode_scalar cs \<and> bs = concat (map utf8_encode cs)"
  then obtain cs where "list_all unicode_scalar cs" "bs = concat (map utf8_encode cs)" by blast
  then show "utf8_valid bs"
    by (induction cs arbitrary: bs) (simp_all add: utf8_encode_valid)
qed (rule utf8_valid_decodes)

end
