(* ===== verification/Parser.thy ===== *)
theory Parser
  imports Rust_Macros Handshake_Format Utf8
begin

unbundle bit_operations_syntax

text \<open>
  The slice parser, \<open>src/sniffer/mc-sniffer-common/src/networking/parser.rs\<close>:
  \<open>read_varint\<close>, \<open>read_mc_string\<close> and \<open>parse_handshake\<close>, with the types and errors the
  file declares. A slice is a byte list, an index or length a \<open>usize\<close>.
\<close>

section \<open>Types\<close>

datatype next_state = Status | Login

record handshake =
  protocol_version :: i32
  server_address :: bytes   \<comment> \<open>the UTF-8 bytes of the \<open>&str\<close>\<close>
  server_port :: u16
  next_state :: next_state

datatype parse_error =
    UnexpectedEof
  | VarIntTooLong
  | WrongPacketId i32
  | InvalidUtf8
  | InvalidNextState i32
  | NegativeLength i32
  | InvalidPort bytes
  | TrailingBytes usize

definition MAX_VARINT_BYTES :: usize where
  "MAX_VARINT_BYTES = 5"

definition CONTINUE_BIT :: u8 where
  "CONTINUE_BIT = 0b10000000"

definition SEGMENT_BIT :: u8 where
  "SEGMENT_BIT = 0b01111111"

section \<open>Operations\<close>

fun read_varint_loop ::
    "i32 \<Rightarrow> usize \<Rightarrow> bool \<Rightarrow> (usize \<times> u8) list \<Rightarrow> (i32 \<times> usize \<times> bool, parse_error) outcome" where
  \<comment> \<open>the \<open>for\<close> loop, over the pairs \<open>enumerate\<close> yields; the result is the loop's variables\<close>
  "read_varint_loop num bytes_consumed cont [] = Inr (num, bytes_consumed, cont)"
| "read_varint_loop num bytes_consumed cont ((i, byte) # rest) =
     (let num = num OR push_bit (i * 7) (ucast (byte AND SEGMENT_BIT));
          cont = (byte AND CONTINUE_BIT \<noteq> 0)
      in if \<not> cont then Inr (num, i + 1, cont)
         else if i = MAX_VARINT_BYTES - 1 then Inl (Throw VarIntTooLong)
         else read_varint_loop num bytes_consumed cont rest)"

definition read_varint :: "bytes \<Rightarrow> (i32 \<times> usize, parse_error) outcome" where
  "read_varint buf =
     and_then (read_varint_loop 0 0 True (enumerate 0 (take 5 buf)))
       (\<lambda>(num, bytes_consumed, cont).
          if cont then Inl (Throw UnexpectedEof) else Inr (num, bytes_consumed))"

definition usize_try_from_i32 :: "i32 \<Rightarrow> usize option" where
  \<comment> \<open>\<open>usize::try_from\<close>: fails on a negative value\<close>
  "usize_try_from_i32 n = (if sint n < 0 then None else Some (nat (sint n)))"

definition read_mc_string :: "bytes \<Rightarrow> (bytes \<times> usize, parse_error) outcome" where
  "read_mc_string buf =
     and_then (read_varint buf) (\<lambda>(len, consumed).
     and_then (ok_or (usize_try_from_i32 len) (NegativeLength len)) (\<lambda>len.
     and_then (usize_add len consumed) (\<lambda>total.
     and_then (checked_slice_range buf consumed total UnexpectedEof) (\<lambda>s.
     and_then (ok_or (str_from_utf8 s) InvalidUtf8) (\<lambda>str.
       Inr (str, total))))))"

definition parse_handshake :: "bytes \<Rightarrow> (handshake, parse_error) outcome" where
  "parse_handshake buf =
     and_then (read_varint buf) (\<lambda>(pid, consumed).
     and_then (usize_add 0 consumed) (\<lambda>total.
     if pid \<noteq> 0 then Inl (Throw (WrongPacketId pid)) else
     and_then (checked_slice_from buf total UnexpectedEof) (\<lambda>s.
     and_then (read_varint s) (\<lambda>(protov, consumed).
     and_then (usize_add total consumed) (\<lambda>total.
     and_then (checked_slice_from buf total UnexpectedEof) (\<lambda>s.
     and_then (read_mc_string s) (\<lambda>(server_addr, consumed).
     and_then (usize_add total consumed) (\<lambda>total.
     and_then (usize_add total 2) (\<lambda>required_len.
     and_then (checked_slice_range buf total required_len UnexpectedEof) (\<lambda>port_buf.
     and_then (ok_or (array_of_slice 2 port_buf) (InvalidPort port_buf)) (\<lambda>port_arr.
     and_then (checked_slice_from buf required_len UnexpectedEof) (\<lambda>s.
     and_then (read_varint s) (\<lambda>(next_state_num, consumed).
     and_then (usize_add required_len consumed) (\<lambda>total.
     if length buf > total
     then and_then (usize_sub (length buf) total) (\<lambda>n. Inl (Throw (TrailingBytes n)))
     else
       and_then
         (if next_state_num = 1 then Inr Status
          else if next_state_num = 2 then Inr Login
          else Inl (Throw (InvalidNextState next_state_num)))
         (\<lambda>ns. Inr \<lparr>protocol_version = protov, server_address = server_addr,
                    server_port = u16_from_be_bytes port_arr, next_state = ns\<rparr>)))))))))))))))"

section \<open>Reading a VarInt\<close>

lemma continue_bit_iff: "byte AND CONTINUE_BIT \<noteq> 0 \<longleftrightarrow> continued byte"
  by (simp add: CONTINUE_BIT_def continued_def)

lemma segment_bit_eq: "ucast (byte AND SEGMENT_BIT) = segment byte"
  by (simp add: SEGMENT_BIT_def segment_def)

lemmas loop_step = continue_bit_iff segment_bit_eq Let_def MAX_VARINT_BYTES_def

lemma read_varint_loop_Some:
  "varint_prefix n bs = Some vs \<Longrightarrow> i + n = 5 \<Longrightarrow>
    read_varint_loop num c k (enumerate i (take n bs)) =
      Inr (num OR push_bit (i * 7) (varint_value vs), i + length vs, False)"
proof (induction n bs arbitrary: i num k vs rule: varint_prefix.induct)
  case (3 n b bs)
  show ?case
  proof (cases "continued b")
    case True
    with "3.prems" obtain us where us: "varint_prefix n bs = Some us" "vs = b # us"
      by auto
    then have "0 < n" by (cases n) auto
    with "3.IH" [OF True us(1), of "Suc i" "num OR push_bit (i * 7) (segment b)" True] "3.prems"(2) True us(2)
    show ?thesis
      by (simp add: loop_step push_bit_or push_bit_push_bit or.assoc add.commute)
  next
    case False
    with "3.prems" show ?thesis by (auto simp: loop_step)
  qed
qed simp_all

lemma read_varint_loop_short:
  "varint_prefix n bs = None \<Longrightarrow> length bs < n \<Longrightarrow> i + n = 5 \<Longrightarrow>
    \<exists>num'. read_varint_loop num c True (enumerate i (take n bs)) = Inr (num', c, True)"
proof (induction n bs arbitrary: i num rule: varint_prefix.induct)
  case (3 n b bs)
  then have "continued b" "varint_prefix n bs = None" "length bs < n" "0 < n"
    by (auto split: if_splits)
  with "3.IH" [of "Suc i"] "3.prems"(3) show ?case
    by (auto simp: loop_step)
qed simp_all

lemma read_varint_loop_long:
  "varint_prefix n bs = None \<Longrightarrow> n \<le> length bs \<Longrightarrow> 0 < n \<Longrightarrow> i + n = 5 \<Longrightarrow>
    read_varint_loop num c k (enumerate i (take n bs)) = Inl (Throw VarIntTooLong)"
proof (induction n bs arbitrary: i num k rule: varint_prefix.induct)
  case (3 n b bs)
  then have "continued b" "varint_prefix n bs = None" "n \<le> length bs"
    by (auto split: if_splits)
  with "3.IH" [of "Suc i"] "3.prems"(4) show ?case
    by (cases n) (auto simp: loop_step)
qed simp_all

text \<open>The whole operation, on every branch.\<close>

lemma read_varint_eq:
  "read_varint buf = (case varint_prefix 5 buf of
      Some vs \<Rightarrow> Inr (varint_value vs, length vs)
    | None \<Rightarrow> Inl (Throw (if length buf < 5 then UnexpectedEof else VarIntTooLong)))"
proof (cases "varint_prefix 5 buf")
  case (Some vs)
  from read_varint_loop_Some [OF this, of 0] Some show ?thesis
    by (simp add: read_varint_def)
next
  case None
  show ?thesis
  proof (cases "length buf < 5")
    case True
    from read_varint_loop_short [OF None True, of 0 0 0] True None show ?thesis
      by (auto simp: read_varint_def)
  next
    case False
    with read_varint_loop_long [OF None, of 0] None show ?thesis
      by (simp add: read_varint_def)
  qed
qed

interpretation slice: varint_reader "\<lambda>buf. buf" "\<lambda>_. True" read_varint
  by unfold_locales (simp_all add: read_varint_eq)

lemma read_varint_append [simp]:
  "varint vs v \<Longrightarrow> read_varint (vs @ rest) = Inr (v, length vs)"
  by (simp add: slice.read_iff)

lemma read_varint_InrE:
  assumes "read_varint buf = Inr (v, n)"
  obtains vs rest where "buf = vs @ rest" and "varint vs v" and "n = length vs"
proof
  show "buf = take n buf @ drop n buf" by simp
  show "varint (take n buf) v" and "n = length (take n buf)"
    using assms by (auto simp: slice.read_iff)
qed

section \<open>Reading a string\<close>

definition valid_slice :: "bytes \<Rightarrow> bool" where
  \<comment> \<open>the documented bound of every Rust slice: at most \<open>isize::MAX\<close> bytes\<close>
  "valid_slice buf \<longleftrightarrow> length buf < 2 ^ 63"

lemma sint_i32: "sint (n :: i32) = (if uint n < 2 ^ 31 then uint n else uint n - 2 ^ 32)"
proof -
  have lt: "uint n < 2 ^ 32"
    using uint_lt2p [of n] by simp
  have nn: "0 \<le> uint n" by simp
  have "odd (uint n div 2 ^ 31) \<longleftrightarrow> 2 ^ 31 \<le> uint n"
  proof (cases "2 ^ 31 \<le> uint n")
    case True
    with lt have "uint n div 2 ^ 31 = 1" by (intro int_div_pos_eq [where r = "uint n - 2 ^ 31"]) simp_all
    with True show ?thesis by simp
  next
    case False
    with nn have "uint n div 2 ^ 31 = 0" by (simp add: div_pos_pos_trivial)
    with False show ?thesis by simp
  qed
  then have "bit (uint n) 31 \<longleftrightarrow> 2 ^ 31 \<le> uint n"
    by (simp only: bit_iff_odd)
  moreover have "sint n = take_bit 32 (uint n) - 2 ^ 32 * of_bool (bit (uint n) 31)"
    by (simp add: sint_uint signed_take_bit_eq_take_bit_minus)
  moreover have "take_bit 32 (uint n) = uint n"
    using lt nn by (simp add: take_bit_int_eq_self_iff)
  ultimately show ?thesis
    by simp
qed

lemma usize_try_from_i32_Some:
  "usize_try_from_i32 len = Some n \<longleftrightarrow> n = unat len \<and> n < 2 ^ 31"
proof -
  obtain u where u: "unat len = u" "uint len = int u"
    by (simp add: uint_nat)
  moreover have "u < 2 ^ 32"
    using unsigned_less [of len, where ?'a = nat] u by simp
  ultimately show ?thesis
    unfolding usize_try_from_i32_def sint_i32 u by auto
qed

lemma str_from_utf8_Some: "str_from_utf8 s = Some r \<longleftrightarrow> utf8_valid s \<and> r = s"
  by (auto simp: str_from_utf8_def)

lemma read_mc_string_append:
  assumes "varint len_enc len" and "unat len = length s" and "length s < 2 ^ 31"
  shows "read_mc_string (len_enc @ s @ rest) =
    (if utf8_valid s then Inr (s, length len_enc + length s) else Inl (Throw InvalidUtf8))"
proof -
  have "usize_try_from_i32 len = Some (length s)"
    using assms by (simp add: usize_try_from_i32_Some)
  moreover have "length s + length len_enc < 2 ^ 64"
    using assms(3) varint_length [OF assms(1)] by simp
  ultimately show ?thesis
    using assms by (simp add: read_mc_string_def checked_slice_range_eq str_from_utf8_def)
qed

lemma read_mc_string_InrE:
  assumes "read_mc_string buf = Inr (s, n)"
  obtains len_enc len rest where "buf = len_enc @ s @ rest" and "varint len_enc len"
    and "unat len = length s" and "length s < 2 ^ 31" and "utf8_valid s"
    and "n = length len_enc + length s"
proof -
  from assms obtain len consumed where
    v: "read_varint buf = Inr (len, consumed)" "unat len < 2 ^ 31"
      "consumed + unat len \<le> length buf" "s = take (unat len) (drop consumed buf)"
      "utf8_valid s" "n = unat len + consumed"
    by (auto simp: read_mc_string_def and_then_Inr_iff ok_or_Inr_iff usize_try_from_i32_Some
        str_from_utf8_Some usize_add_def split: if_splits)
  from v(1) obtain vs rest where r: "buf = vs @ rest" "varint vs len" "consumed = length vs"
    by (rule read_varint_InrE)
  show thesis
  proof (rule that)
    show "buf = vs @ s @ drop (unat len) rest" using r v by simp
    show "unat len = length s" and "length s < 2 ^ 31" using r v by auto
  qed (use r v in auto)
qed

lemma no_fault_read_varint [simp]: "no_fault (read_varint buf)"
  by (rule slice.read_no_fault) simp

lemma read_mc_string_no_fault [simp]: "no_fault (read_mc_string buf)"
proof -
  have "len < 2 ^ 31 \<Longrightarrow> consumed \<le> 5 \<Longrightarrow> no_fault (usize_add len consumed)" for len consumed
    by (simp add: usize_add_def)
  then show ?thesis
    unfolding read_mc_string_def
    by (auto intro!: no_fault_and_then simp: ok_or_Inr_iff usize_try_from_i32_Some
        dest!: slice.read_bounds [OF TrueI])
qed

section \<open>Parsing a handshake\<close>

definition next_state_of :: "i32 \<Rightarrow> (next_state, parse_error) outcome" where
  \<comment> \<open>the \<open>match\<close> on the next-state number, as one value\<close>
  "next_state_of n = (if n = 1 then Inr Status else if n = 2 then Inr Login
     else Inl (Throw (InvalidNextState n)))"

text \<open>
  A well-formed body, with whatever follows it: bytes after the body are reported before
  the next state is looked at, and the fields of the result are the fields of the body.
\<close>

lemma parse_handshake_body:
  assumes body: "handshake_body body protov addr port ns"
    and addr: "length addr < 2 ^ 31" and utf8: "utf8_valid addr"
    and slice: "valid_slice (body @ rest)"
  shows "parse_handshake (body @ rest) =
    (if rest \<noteq> [] then Inl (Throw (TrailingBytes (length rest)))
     else and_then (next_state_of ns) (\<lambda>st. Inr \<lparr>protocol_version = protov, server_address = addr,
       server_port = u16_from_be_bytes port, next_state = st\<rparr>))"
proof -
  from body obtain pid_enc protov_enc len_enc len ns_enc where
    b: "body = pid_enc @ protov_enc @ len_enc @ addr @ port @ ns_enc"
    and v: "varint pid_enc 0" "varint protov_enc protov" "varint len_enc len"
      "unat len = length addr" "length port = 2" "varint ns_enc ns"
    by (rule handshake_bodyE)
  have port: "array_of_slice 2 port = Some port"
    by (simp add: array_of_slice_def v)
  have str: "read_mc_string (len_enc @ addr @ more) = Inr (addr, length len_enc + length addr)" for more
    using read_mc_string_append [OF v(3,4) addr] utf8 by simp
  have len: "length (body @ rest) + 2 < 2 ^ 64"
    using slice by (simp add: valid_slice_def)
  show ?thesis
    using len v unfolding parse_handshake_def b
    by (simp add: str port checked_slice_from_eq checked_slice_range_eq next_state_of_def)
qed

section \<open>Which errors each operation returns\<close>

lemma throws_only_read_varint [simp]:
  "UnexpectedEof \<in> E \<Longrightarrow> VarIntTooLong \<in> E \<Longrightarrow> throws_only E (read_varint buf)"
  by (simp add: read_varint_eq split: option.splits)

lemma throws_only_read_mc_string [simp]:
  "UnexpectedEof \<in> E \<Longrightarrow> VarIntTooLong \<in> E \<Longrightarrow> InvalidUtf8 \<in> E \<Longrightarrow>
    (\<And>n. NegativeLength n \<in> E) \<Longrightarrow> throws_only E (read_mc_string buf)"
  unfolding read_mc_string_def
  by (auto intro!: throws_only_and_then)

lemma parse_handshake_throws:
  "throws_only ({UnexpectedEof, VarIntTooLong, InvalidUtf8} \<union> range NegativeLength \<union>
     range TrailingBytes \<union> range InvalidNextState \<union>
     {WrongPacketId p | p rest. read_varint buf = Inr (p, rest) \<and> p \<noteq> 0}) (parse_handshake buf)"
  unfolding parse_handshake_def
  by (auto intro!: throws_only_and_then simp: array_of_slice_def)

text \<open>
  The results that are decided after the last field has been read; each of them means that
  the buffer starts with a complete body.
\<close>

definition late_errors :: "parse_error set" where
  "late_errors = range TrailingBytes \<union> range InvalidNextState"

definition late :: "('a, parse_error) outcome \<Rightarrow> bool" where
  "late r = (case r of Inl (Throw e) \<Rightarrow> e \<in> late_errors | Inl _ \<Rightarrow> False | Inr _ \<Rightarrow> True)"

lemma late_simps [simp]:
  "late (Inr x)" "late (Inl (Throw e)) \<longleftrightarrow> e \<in> late_errors"
  "\<not> late (Inl Overflow)" "\<not> late (Inl BadRead)"
  by (simp_all add: late_def)

lemma late_and_then_iff:
  "throws_only (- late_errors) m \<Longrightarrow> late (and_then m f) \<longleftrightarrow> (\<exists>x. m = Inr x \<and> late (f x))"
  by (cases m) (auto simp: throws_only_def late_def split: exit.splits)

lemma early_errors [simp]:
  "UnexpectedEof \<notin> late_errors" "VarIntTooLong \<notin> late_errors" "InvalidUtf8 \<notin> late_errors"
  "NegativeLength n \<notin> late_errors" "WrongPacketId p \<notin> late_errors" "InvalidPort b \<notin> late_errors"
  by (auto simp: late_errors_def)

lemma late_errors_members [simp]: "TrailingBytes n \<in> late_errors" "InvalidNextState s \<in> late_errors"
  by (simp_all add: late_errors_def)

lemma parse_handshake_lateD:
  assumes "late (parse_handshake buf)"
  shows "\<exists>a protov b s c ns d. read_varint buf = Inr (0, a) \<and> read_varint (drop a buf) = Inr (protov, b) \<and>
    read_mc_string (drop (a + b) buf) = Inr (s, c) \<and> a + b + c + 2 \<le> length buf \<and>
    read_varint (drop (a + b + c + 2) buf) = Inr (ns, d)"
  using assms unfolding parse_handshake_def
  by (auto simp: late_and_then_iff split: if_splits)

lemma parse_handshake_lateE:
  assumes "late (parse_handshake buf)"
  obtains body rest protov addr port ns where "buf = body @ rest"
    and "handshake_body body protov addr port ns" and "length addr < 2 ^ 31" and "utf8_valid addr"
proof -
  from parse_handshake_lateD [OF assms] obtain a protov b s c ns d where
    r: "read_varint buf = Inr (0, a)" "read_varint (drop a buf) = Inr (protov, b)"
      "read_mc_string (drop (a + b) buf) = Inr (s, c)" "a + b + c + 2 \<le> length buf"
      "read_varint (drop (a + b + c + 2) buf) = Inr (ns, d)"
    by blast
  from r(1) obtain e1 x1 where 1: "buf = e1 @ x1" "varint e1 0" "a = length e1"
    by (rule read_varint_InrE)
  with r(2) obtain e2 x2 where 2: "x1 = e2 @ x2" "varint e2 protov" "b = length e2"
    by (auto elim: read_varint_InrE)
  with 1 r(3) obtain e3 len x3 where 3: "x2 = e3 @ s @ x3" "varint e3 len" "unat len = length s"
    "length s < 2 ^ 31" "utf8_valid s" "c = length e3 + length s"
    by (auto elim: read_mc_string_InrE)
  define port x4 where "port = take 2 x3" and "x4 = drop 2 x3"
  have 4: "x3 = port @ x4" "length port = 2"
    using r(4) 1 2 3 by (simp_all add: port_def x4_def)
  with 1 2 3 r(5) obtain e4 x5 where 5: "x4 = e4 @ x5" "varint e4 ns"
    by (auto elim: read_varint_InrE)
  show thesis
  proof (rule that)
    show "buf = (e1 @ e2 @ e3 @ s @ port @ e4) @ x5"
      using 1 2 3 4 5 by simp
    show "handshake_body (e1 @ e2 @ e3 @ s @ port @ e4) protov s port ns"
      by (rule handshake_bodyI) (fact 1 2 3 4 5)+
  qed (fact 3)+
qed

lemma parse_handshake_Inr_iff:
  assumes "valid_slice buf"
  shows "parse_handshake buf = Inr h \<longleftrightarrow>
    (\<exists>port ns. handshake_body buf (protocol_version h) (server_address h) port ns \<and>
       length (server_address h) < 2 ^ 31 \<and> utf8_valid (server_address h) \<and>
       server_port h = u16_from_be_bytes port \<and> next_state_of ns = Inr (next_state h))"
    (is "_ \<longleftrightarrow> ?rhs")
proof
  assume ok: "parse_handshake buf = Inr h"
  then have "late (parse_handshake buf)" by simp
  then obtain body rest protov addr port ns where b: "buf = body @ rest"
    "handshake_body body protov addr port ns" "length addr < 2 ^ 31" "utf8_valid addr"
    by (rule parse_handshake_lateE)
  from ok assms b(1) parse_handshake_body [OF b(2,3,4), of rest] have "rest = []"
    and "and_then (next_state_of ns) (\<lambda>st. Inr \<lparr>protocol_version = protov, server_address = addr,
      server_port = u16_from_be_bytes port, next_state = st\<rparr>) = Inr h"
    by (simp_all split: if_splits)
  then obtain st where "rest = []" "next_state_of ns = Inr st"
    "h = \<lparr>protocol_version = protov, server_address = addr,
      server_port = u16_from_be_bytes port, next_state = st\<rparr>"
    by (auto simp: and_then_Inr_iff)
  with b show ?rhs by auto
next
  assume ?rhs
  then obtain port ns where "handshake_body buf (protocol_version h) (server_address h) port ns"
    "length (server_address h) < 2 ^ 31" "utf8_valid (server_address h)"
    and r: "server_port h = u16_from_be_bytes port" "next_state_of ns = Inr (next_state h)"
    by blast
  from parse_handshake_body [OF this(1-3), of "[]"] assms r show "parse_handshake buf = Inr h"
    by simp
qed


section \<open>No panic\<close>

lemma read_varint_bounds: "read_varint buf = Inr (v, n) \<Longrightarrow> n \<le> 5 \<and> n \<le> length buf"
  using slice.read_bounds by simp

lemma read_mc_string_bounds: "read_mc_string buf = Inr (s, n) \<Longrightarrow> n \<le> length buf"
  by (auto elim!: read_mc_string_InrE)

lemma parse_handshake_safe: "valid_slice buf \<Longrightarrow> no_fault (parse_handshake buf)"
  unfolding parse_handshake_def valid_slice_def
  by (auto intro!: no_fault_and_then simp: next_state_of_def
      dest!: read_varint_bounds read_mc_string_bounds)

section \<open>Properties\<close>

definition handshake_encode :: "handshake \<Rightarrow> u8 \<Rightarrow> u8 \<Rightarrow> bytes" where
  \<comment> \<open>the canonical body of a handshake, its port given as two bytes\<close>
  "handshake_encode h hi lo =
     [0] @ varint_encode (unat (protocol_version h)) @
     varint_encode (length (server_address h)) @ server_address h @ [hi, lo] @
     [case next_state h of Status \<Rightarrow> 1 | Login \<Rightarrow> 2]"

lemma varint_single: "b < 128 \<Longrightarrow> varint [b] (ucast b)"
proof -
  assume b: "b < 128"
  then have u: "unat b < 128" by (simp add: word_less_nat_alt)
  have "word_of_nat (unat b) = b" by simp
  with final_byte(1) [OF u] have "\<not> continued b" by simp
  then have "varint_wf 5 [b]" by (simp add: numeral_eq_Suc)
  moreover have "unat (varint_value [b]) = unat (ucast b :: u32)"
    using u by (simp add: unat_segment_u32 unsigned_ucast_eq take_bit_eq_mod)
  ultimately show ?thesis by (simp add: varint_def word_unat_eq_iff)
qed

lemma handshake_encode_body:
  assumes "length (server_address h) < 2 ^ 31"
  shows "handshake_body (handshake_encode h hi lo) (protocol_version h) (server_address h) [hi, lo]
    (case next_state h of Status \<Rightarrow> 1 | Login \<Rightarrow> 2)"
  unfolding handshake_encode_def
proof (rule handshake_bodyI)
  show "varint [0] 0" using varint_single [of 0] by simp
  show "varint (varint_encode (unat (protocol_version h))) (protocol_version h)"
    using varint_encode_varint [of "unat (protocol_version h)"]
      unsigned_less [of "protocol_version h", where ?'a = nat] by simp
  show "varint (varint_encode (length (server_address h))) (word_of_nat (length (server_address h)))"
    using assms by (intro varint_encode_varint) simp
  show "unat (word_of_nat (length (server_address h)) :: u32) = length (server_address h)"
    using assms by (simp add: unat_of_nat)
  show "varint [case next_state h of Status \<Rightarrow> 1 | Login \<Rightarrow> 2] (case next_state h of Status \<Rightarrow> 1 | Login \<Rightarrow> 2)"
    using varint_single [of 1] varint_single [of 2] by (cases "next_state h") simp_all
qed simp

lemma next_state_of_Inr:
  "next_state_of n = Inr st \<longleftrightarrow> n = 1 \<and> st = Status \<or> n = 2 \<and> st = Login"
  by (auto simp: next_state_of_def)

definition localhost_login :: bytes where
  \<comment> \<open>the body of PACKET_EXAMPLES.md, example 1\<close>
  "localhost_login = [0x00, 0x81, 0x06, 0x09, 0x6C, 0x6F, 0x63, 0x61, 0x6C, 0x68, 0x6F, 0x73, 0x74,
     0x63, 0xDD, 0x02]"

lemma valid_localhost_login: "valid_slice localhost_login"
  by (simp add: valid_slice_def localhost_login_def)

lemma parse_localhost_login:
  "parse_handshake localhost_login = Inr \<lparr>protocol_version = 769,
     server_address = [0x6C, 0x6F, 0x63, 0x61, 0x6C, 0x68, 0x6F, 0x73, 0x74],
     server_port = 25565, next_state = Login\<rparr>"
  by (simp add: parse_handshake_def read_mc_string_def read_varint_eq localhost_login_def
      continued_def segment_def usize_add_def usize_try_from_i32_def checked_slice_from_eq
      checked_slice_range_eq array_of_slice_def str_from_utf8_def u16_from_be_bytes_def)

text \<open>
  C23: \<open>parse_handshake\<close> accepts exactly the well-formed handshake bodies with a UTF-8 address
  and next state 1 or 2, with nothing after them, and its result holds the fields of that body.
\<close>

theorem parse_handshake_exact:
  assumes "valid_slice buf"
  shows "parse_handshake buf = Inr h \<longleftrightarrow>
    (\<exists>port ns. handshake_body buf (protocol_version h) (server_address h) port ns \<and>
       length (server_address h) < 2 ^ 31 \<and> utf8_valid (server_address h) \<and>
       server_port h = u16_from_be_bytes port \<and>
       (ns = 1 \<and> next_state h = Status \<or> ns = 2 \<and> next_state h = Login))"
  unfolding parse_handshake_Inr_iff [OF assms]
  by (simp add: next_state_of_Inr)

theorem parse_handshake_exact_witness:
  "valid_slice localhost_login \<and>
   (\<exists>port ns. handshake_body localhost_login 769
      [0x6C, 0x6F, 0x63, 0x61, 0x6C, 0x68, 0x6F, 0x73, 0x74] port ns \<and>
      u16_from_be_bytes port = 25565 \<and> ns = 2)"
  using valid_localhost_login
    parse_handshake_exact [OF valid_localhost_login, THEN iffD1, OF parse_localhost_login]
  by auto

text \<open>
  C24: the serialised form of any handshake whose address is UTF-8 and shorter than \<open>2 ^ 31\<close>
  bytes parses back to that handshake.
\<close>

theorem parse_handshake_roundtrip:
  assumes "length (server_address h) < 2 ^ 31" and "utf8_valid (server_address h)"
    and "server_port h = u16_from_be_bytes [hi, lo]"
  shows "parse_handshake (handshake_encode h hi lo) = Inr h"
proof -
  have "length (varint_encode n) \<le> 5" if "n < 2 ^ 32" for n
    using varint_length [OF varint_encode_varint [OF that]] by simp
  then have "length (varint_encode (length (server_address h))) \<le> 5"
    and "length (varint_encode (unat (protocol_version h))) \<le> 5"
    using assms(1) unsigned_less [of "protocol_version h", where ?'a = nat] by simp_all
  then have "valid_slice (handshake_encode h hi lo)"
    using assms(1) by (simp add: valid_slice_def handshake_encode_def)
  then show ?thesis
    using handshake_encode_body [OF assms(1), of hi lo] assms
    by (cases "next_state h") (auto simp: parse_handshake_Inr_iff next_state_of_Inr)
qed

theorem parse_handshake_roundtrip_witness:
  "parse_handshake (handshake_encode \<lparr>protocol_version = 769, server_address = [0x68, 0x69],
     server_port = 25565, next_state = Status\<rparr> 0x63 0xDD) =
   Inr \<lparr>protocol_version = 769, server_address = [0x68, 0x69], server_port = 25565, next_state = Status\<rparr>"
  by (rule parse_handshake_roundtrip) (simp_all add: u16_from_be_bytes_def)




text \<open>
  C29: on every slice the parser returns a value or one of its errors: no index is out of range
  and no \<open>usize\<close> operation overflows.
\<close>

theorem parse_handshake_never_panics:
  assumes "valid_slice buf"
  shows "no_fault (parse_handshake buf)"
  by (rule parse_handshake_safe [OF assms])

theorem parse_handshake_never_panics_witness:
  "no_fault (parse_handshake [0x00, 0x00, 0x01, 0x61, 0xFF])"
  by (rule parse_handshake_never_panics) (simp add: valid_slice_def)

text \<open>
  The error \<open>InvalidPort\<close> is never returned: the port's two bytes are cut with a bound
  check of their own, so the conversion to an array cannot fail.
\<close>

theorem parse_handshake_no_invalid_port:
  "parse_handshake buf \<noteq> Inl (Throw (InvalidPort p))"
  using throws_onlyD [OF parse_handshake_throws] by blast

text \<open>
  A packet ID other than 0 is reported before anything else is read, and
  \<open>WrongPacketId\<close> is returned in no other case.
\<close>

theorem parse_handshake_wrong_packet_id:
  "parse_handshake buf = Inl (Throw (WrongPacketId p)) \<longleftrightarrow>
     p \<noteq> 0 \<and> (\<exists>vs rest. buf = vs @ rest \<and> varint vs p)"
proof
  assume "parse_handshake buf = Inl (Throw (WrongPacketId p))"
  with throws_onlyD [OF parse_handshake_throws this] show "p \<noteq> 0 \<and> (\<exists>vs rest. buf = vs @ rest \<and> varint vs p)"
    by (auto elim!: read_varint_InrE)
next
  assume "p \<noteq> 0 \<and> (\<exists>vs rest. buf = vs @ rest \<and> varint vs p)"
  then obtain vs rest where "buf = vs @ rest" "varint vs p" "p \<noteq> 0" by blast
  moreover from varint_length [OF this(2)] have "length vs < 2 ^ 64" by simp
  ultimately show "parse_handshake buf = Inl (Throw (WrongPacketId p))"
    by (simp add: parse_handshake_def)
qed

text \<open>
  The slice reader of VarInts on every branch: the value of the encoding the buffer starts
  with; \<open>UnexpectedEof\<close> when the buffer ends inside one; \<open>VarIntTooLong\<close> when five bytes
  are all continued.
\<close>

theorem read_varint_branches:
  "(read_varint buf = Inr (v, n) \<longleftrightarrow> n \<le> length buf \<and> varint (take n buf) v) \<and>
   (read_varint buf = Inl (Throw UnexpectedEof) \<longleftrightarrow> length buf < 5 \<and> list_all continued buf) \<and>
   (read_varint buf = Inl (Throw VarIntTooLong) \<longleftrightarrow>
     5 \<le> length buf \<and> list_all continued (take 5 buf))"
proof (intro conjI)
  show "read_varint buf = Inr (v, n) \<longleftrightarrow> n \<le> length buf \<and> varint (take n buf) v"
    by (simp add: slice.read_iff)
  have none: "varint_prefix 5 buf = None" if "list_all continued (take 5 buf)"
    using that by (rule varint_prefix_continued)
  show "read_varint buf = Inl (Throw UnexpectedEof) \<longleftrightarrow> length buf < 5 \<and> list_all continued buf"
    using none varint_prefix_None_short [of 5 buf]
    by (auto simp: read_varint_eq split: option.splits)
  show "read_varint buf = Inl (Throw VarIntTooLong) \<longleftrightarrow>
     5 \<le> length buf \<and> list_all continued (take 5 buf)"
    using none varint_prefix_None_long [of 5 buf]
    by (auto simp: read_varint_eq split: option.splits)
qed

text \<open>
  A length-prefixed string is returned whole, whatever the width of its length prefix, and
  the count covers prefix and string.
\<close>

theorem read_mc_string_whole:
  assumes "varint len_enc len" and "unat len = length s" and "length s < 2 ^ 31" and "utf8_valid s"
  shows "read_mc_string (len_enc @ s @ rest) = Inr (s, length len_enc + length s)"
  using read_mc_string_append [OF assms(1-3)] assms(4) by simp

theorem read_mc_string_whole_witness:
  "read_mc_string ([0x80, 0x01] @ (replicate 127 0x61 @ [0x5A]) @ []) =
     Inr (replicate 127 0x61 @ [0x5A], 130)"
proof -
  have "varint [0x80, 0x01] 128"
    by (simp add: varint_def continued_def segment_def)
  moreover have "utf8_valid (replicate 127 0x61 @ [0x5A])"
    by (rule utf8_ascii) (simp add: list_all_iff)
  ultimately show ?thesis
    using read_mc_string_whole [of "[0x80, 0x01]" 128 "replicate 127 0x61 @ [0x5A]" "[]"] by simp
qed

end
