(* ===== verification/Equivalence.thy ===== *)
theory Equivalence
  imports Parser Ebpf_Headers Minecraft
begin

text \<open>
  The repository parses the same bytes twice: \<open>networking/net.rs\<close> and
  \<open>networking/parser.rs\<close> on slices, \<open>ebpf/\<close> on packet memory. This theory compares the two
  implementations, layer by layer, where they are meant to agree and where the header comment
  of \<open>ebpf/minecraft.rs\<close> says they differ.
\<close>

section \<open>VarInts\<close>

lemma varint_readers_agree:
  assumes "packet_ctx ctx bs" and "off + 6 < headroom"
  shows "read_varint_ctx ctx off = map_err (read_varint (drop off bs)) XDP_DROP"
  unfolding read_varint_ctx_eq [OF assms] read_varint_eq by (simp split: option.splits)

section \<open>Headers\<close>

definition slice_parse :: "bytes \<Rightarrow> (tcp_segment, net_error) outcome" where
  \<comment> \<open>the three slice parsers one after another, as the tests of \<open>net.rs\<close> chain them\<close>
  "slice_parse frame =
     and_then (parse_ethernet frame) (\<lambda>eth.
     and_then (parse_ipv4 (ef_payload eth)) (\<lambda>ip. parse_tcp (is_payload ip)))"

definition segment_of_slice :: "bytes \<Rightarrow> tcp_segment" where
  "segment_of_slice bs = (let t = frame_tcp bs in
     \<lparr>ts_source_port = u16_from_be_bytes [bs ! t, bs ! (t + 1)],
      ts_destination_port = u16_from_be_bytes [bs ! (t + 2), bs ! (t + 3)],
      ts_flags = TcpFlags (bs ! (t + 13)),
      ts_payload = take (frame_tot_len bs - frame_ihl bs - frame_doff bs) (drop (t + frame_doff bs) bs)\<rparr>)"

lemma slice_tcp_eq:
  assumes "14 + frame_tot_len bs \<le> length bs" and "frame_ihl bs \<le> frame_tot_len bs"
  shows "parse_tcp (take (frame_tot_len bs - frame_ihl bs) (drop (frame_tcp bs) bs)) =
    (if 20 \<le> frame_doff bs \<and> frame_ihl bs + frame_doff bs \<le> frame_tot_len bs
     then Inr (segment_of_slice bs) else Inl (Throw TooShort))"
proof -
  define seg where "seg = take (frame_tot_len bs - frame_ihl bs) (drop (frame_tcp bs) bs)"
  have len: "length seg = frame_tot_len bs - frame_ihl bs"
    using assms by (simp add: seg_def frame_tcp_def)
  show ?thesis
  proof (cases "20 \<le> length seg")
    case False
    with len show ?thesis
      by (auto simp: parse_tcp_eq Let_def simp flip: seg_def)
  next
    case True
    then have nth: "i < 20 \<Longrightarrow> seg ! i = bs ! (frame_tcp bs + i)" for i
      using assms len by (simp add: seg_def frame_tcp_def)
    then have "frame_doff bs = 4 * (unat (seg ! 12) div 16)"
      by (simp add: frame_doff_def)
    moreover have "drop (frame_doff bs) seg =
        take (frame_tot_len bs - frame_ihl bs - frame_doff bs) (drop (frame_tcp bs + frame_doff bs) bs)"
      by (simp add: seg_def drop_take add.commute)
    ultimately show ?thesis
      using nth len assms(2) True
      by (auto simp: parse_tcp_eq segment_of_slice_def Let_def simp flip: seg_def)
  qed
qed

lemma slice_parse_Inr_iff:
  "slice_parse bs = Inr s \<longleftrightarrow>
     34 \<le> length bs \<and> unat (bs ! 14) div 16 = 4 \<and> bs ! 23 = 6 \<and>
     14 + frame_tot_len bs \<le> length bs \<and> 20 \<le> frame_doff bs \<and>
     frame_ihl bs + frame_doff bs \<le> frame_tot_len bs \<and> s = segment_of_slice bs"
proof (cases "34 \<le> length bs")
  case False
  then show ?thesis by (auto simp: slice_parse_def parse_ethernet_eq parse_ipv4_eq Let_def)
next
  case True
  then have n: "drop 14 bs ! 0 = bs ! 14" "drop 14 bs ! 2 = bs ! 16" "drop 14 bs ! 3 = bs ! 17"
    "drop 14 bs ! 9 = bs ! 23"
    by simp_all
  have v: "drop_bit 4 (bs ! 14) = 4 \<longleftrightarrow> unat (bs ! 14) div 16 = 4"
    by (simp add: word_unat_eq_iff unat_high_nibble)
  have "slice_parse bs = Inr s \<longleftrightarrow> unat (bs ! 14) div 16 = 4 \<and> bs ! 23 = 6 \<and>
      frame_ihl bs \<le> frame_tot_len bs \<and> 14 + frame_tot_len bs \<le> length bs \<and>
      parse_tcp (take (frame_tot_len bs - frame_ihl bs) (drop (frame_tcp bs) bs)) = Inr s"
    using True unfolding slice_parse_def parse_ethernet_eq
    by (auto simp: parse_ipv4_eq n v [symmetric] frame_ihl_def frame_tot_len_def frame_tcp_def Let_def
        add.commute)
  also have "\<dots> \<longleftrightarrow> unat (bs ! 14) div 16 = 4 \<and> bs ! 23 = 6 \<and>
     14 + frame_tot_len bs \<le> length bs \<and> 20 \<le> frame_doff bs \<and>
     frame_ihl bs + frame_doff bs \<le> frame_tot_len bs \<and> s = segment_of_slice bs"
    using slice_tcp_eq [of bs] by (auto split: if_splits)
  finally show ?thesis using True by simp
qed

lemma packet_parsers_Inr:
  assumes "header_layout N" and "packet_ctx ctx bs"
  shows "(\<exists>p. ipv4_try_parse N ctx = Inr p) \<and> tcp_try_parse N ctx = Inr t \<longleftrightarrow>
    (\<exists>s. slice_parse bs = Inr s) \<and> 20 \<le> frame_ihl bs \<and> frame_tot_len bs \<le> 1500 \<and>
    \<not> frame_fragmented bs \<and> t = tcp_of_frame N bs"
  unfolding ipv4_try_parse_Inr [OF assms] tcp_try_parse_Inr [OF assms] slice_parse_Inr_iff
    ipv4_acceptable_def tcp_acceptable_def
  by (auto simp: frame_tcp_def)

lemma slice_chain:
  "(\<exists>eth ip seg. parse_ethernet bs = Inr eth \<and> ef_ethertype eth = ETHERTYPE_IPV4 \<and>
      parse_ipv4 (ef_payload eth) = Inr ip \<and> parse_tcp (is_payload ip) = Inr seg) \<longleftrightarrow>
    14 \<le> length bs \<and> u16_from_be_bytes [bs ! 12, bs ! 13] = 0x0800 \<and> (\<exists>s. slice_parse bs = Inr s)"
  by (auto simp: slice_parse_def parse_ethernet_eq ETHERTYPE_IPV4_def and_then_Inr_iff split: if_splits)

section \<open>Handshakes\<close>

lemma varint_readable: "varint vs v \<longleftrightarrow> read_varint vs = Inr (v, length vs)"
  using read_varint_append [of vs v "[]"] by (auto elim!: read_varint_InrE)


lemma parse_handshake_bad_utf8:
  assumes body: "handshake_body body protov addr port ns"
    and addr: "length addr < 2 ^ 31" and utf8: "\<not> utf8_valid addr"
  shows "parse_handshake (body @ rest) = Inl (Throw InvalidUtf8)"
proof -
  from body obtain pid_enc protov_enc len_enc len ns_enc where
    b: "body = pid_enc @ protov_enc @ len_enc @ addr @ port @ ns_enc"
    and v: "varint pid_enc 0" "varint protov_enc protov" "varint len_enc len"
      "unat len = length addr" "length port = 2" "varint ns_enc ns"
    by (rule handshake_bodyE)
  have str: "read_mc_string (len_enc @ addr @ more) = Inl (Throw InvalidUtf8)" for more
    using read_mc_string_append [OF v(3,4) addr] utf8 by simp
  show ?thesis
    using varint_length [OF v(1)] varint_length [OF v(2)] v unfolding parse_handshake_def b
    by (simp add: str checked_slice_from_eq)
qed

lemma parse_handshake_of_body:
  assumes "handshake_body body protov addr port ns" and "length body \<le> 776"
    and "length addr \<le> 765"
  shows "parse_handshake body =
    (if \<not> utf8_valid addr then Inl (Throw InvalidUtf8)
     else and_then (next_state_of ns) (\<lambda>st. Inr \<lparr>protocol_version = protov, server_address = addr,
       server_port = u16_from_be_bytes port, next_state = st\<rparr>))"
proof -
  have b: "length addr < 2 ^ 31" "valid_slice (body @ [])"
    using assms(2,3) by (simp_all add: valid_slice_def)
  show ?thesis
    using parse_handshake_bad_utf8 [OF assms(1) b(1), of "[]"]
      parse_handshake_body [OF assms(1) b(1) _ b(2)] by simp
qed

lemma parsed_body_framed:
  assumes "parse_handshake body = Inr h" and "length body \<le> 776" and "length (server_address h) \<le> 765"
  shows "starts_with_handshake 776 765 (varint_encode (length body) @ body @ extra)"
proof -
  have "valid_slice body" using assms(2) by (simp add: valid_slice_def)
  with assms(1) obtain port ns where
    b: "handshake_body body (protocol_version h) (server_address h) port ns" "next_state_of ns = Inr (next_state h)"
    by (auto simp: parse_handshake_Inr_iff)
  show ?thesis
  proof (rule starts_with_handshakeI [OF refl])
    show "varint (varint_encode (length body)) (word_of_nat (length body))"
      using assms(2) by (intro varint_encode_varint) simp
    show "unat (word_of_nat (length body) :: u32) = length body"
      using assms(2) by (simp add: unat_of_nat)
    show "ns \<in> {1, 2, 3}" using b(2) by (auto simp: next_state_of_def split: if_splits)
  qed (use assms b in simp_all)
qed

lemma parsed_body_framed_iff:
  assumes ok: "parse_handshake body = Inr h" and len: "length body < 2 ^ 32"
  shows "starts_with_handshake 776 765 (varint_encode (length body) @ body @ extra) \<longleftrightarrow>
    length body \<le> 776 \<and> length (server_address h) \<le> 765"
proof
  assume "starts_with_handshake 776 765 (varint_encode (length body) @ body @ extra)"
  then obtain e flen body' rest protov addr port ns where
    d: "varint_encode (length body) @ body @ extra = e @ body' @ rest" "varint e flen" "length body' \<le> 776"
      "length addr \<le> 765" "handshake_body body' protov addr port ns"
    unfolding starts_with_handshake_def by blast
  have "varint (varint_encode (length body)) (word_of_nat (length body))"
    using len by (intro varint_encode_varint)
  from varint_unique [OF this d(2,1)] have eq: "body @ extra = body' @ rest" by blast
  from ok len obtain port' ns' where
    "handshake_body body (protocol_version h) (server_address h) port' ns'"
    using parse_handshake_Inr_iff [of body h] by (auto simp: valid_slice_def)
  from handshake_body_unique [OF this d(5) eq] d(3,4)
  show "length body \<le> 776 \<and> length (server_address h) \<le> 765" by simp
qed (use parsed_body_framed [OF ok] in blast)

text \<open>
  \<open>MAX_HANDSHAKE_LEN\<close> counts the shortest encodings; the parsers accept longer ones, so a body
  whose address is within its limit can be longer.
\<close>

lemma longer_body_parses:
  "\<exists>body h. parse_handshake body = Inr h \<and> length (server_address h) = 765 \<and> length body = 777"
proof -
  let ?addr = "replicate 765 0x61 :: bytes"
  have v: "varint [0x80, 0x00] 0" "varint [0xFF, 0xFF, 0xFF, 0xFF, 0x0F] (- 1)" "varint [0xFD, 0x05] 765" "varint [2] 2"
    unfolding varint_readable by (simp_all add: continued_def segment_def read_varint_eq)
  have "handshake_body ([0x80, 0x00] @ [0xFF, 0xFF, 0xFF, 0xFF, 0x0F] @ [0xFD, 0x05] @ ?addr @ [0x63, 0xDD] @ [2])
      (- 1) ?addr [0x63, 0xDD] 2"
    by (rule handshake_bodyI [OF v(1-3) _ _ v(4)]) (simp_all add: unat_eq_nat_uint)
  moreover have "utf8_valid ?addr" by (rule utf8_ascii) (simp add: list_all_iff)
  ultimately have "parse_handshake ([0x80, 0x00] @ [0xFF, 0xFF, 0xFF, 0xFF, 0x0F] @ [0xFD, 0x05] @ ?addr @ [0x63, 0xDD] @ [2])
      = Inr \<lparr>protocol_version = - 1, server_address = ?addr, server_port = u16_from_be_bytes [0x63, 0xDD],
          next_state = Login\<rparr>"
    by (subst parse_handshake_Inr_iff) (auto simp: valid_slice_def next_state_of_def)
  then show ?thesis by (intro exI conjI) (assumption, simp_all)
qed

lemma flags_of_frame:
  assumes N: "header_layout N" and "frame_tcp bs + 20 \<le> length bs"
  shows "is_fin (tp_flags (tcp_of_frame N bs)) = is_fin (ts_flags (segment_of_slice bs)) \<and>
    is_syn (tp_flags (tcp_of_frame N bs)) = is_syn (ts_flags (segment_of_slice bs)) \<and>
    is_rst (tp_flags (tcp_of_frame N bs)) = is_rst (ts_flags (segment_of_slice bs)) \<and>
    is_psh (tp_flags (tcp_of_frame N bs)) = is_psh (ts_flags (segment_of_slice bs)) \<and>
    is_ack (tp_flags (tcp_of_frame N bs)) = is_ack (ts_flags (segment_of_slice bs))"
proof -
  let ?h = "take 20 (drop (frame_tcp bs) bs)"
  have "length ?h = 20" and "?h ! 13 = bs ! (frame_tcp bs + 13)" using assms(2) by simp_all
  with tcp_flags_from_both [OF N, of ?h] show ?thesis
    by (simp add: tcp_of_frame_def segment_of_slice_def tcp_flags_from_u8_def Let_def)
qed

lemma login_slice: "slice_parse LOCALHOST_LOGIN_FRAME = Inr (segment_of_slice LOCALHOST_LOGIN_FRAME)"
  unfolding slice_parse_Inr_iff
  by (simp add: localhost_frame_fields) (simp add: LOCALHOST_LOGIN_FRAME_def)

end
