(* ===== verification/Loader.thy ===== *)
theory Loader
  imports Sniffer_Prelude
begin

text \<open>
  The userspace loader, \<open>src/sniffer/mc-sniffer/src/main.rs\<close>. What it calls belongs to other
  crates and to the kernel, so a run is a function of a \<open>host\<close>: the result each call returns.
  \<open>main\<close> gives the actions a run takes, in order, and how it ends. An error value is a type
  variable; \<open>?\<close> returns it.
\<close>

section \<open>The host\<close>

datatype 'e wake =
    Ctrl_c "'e + unit"   \<comment> \<open>\<open>signal::ctrl_c()\<close> completes first\<close>
  | Sigterm              \<comment> \<open>\<open>sigterm.recv()\<close> completes first\<close>
  | Never                \<comment> \<open>no signal ever comes\<close>

record 'e host =
  os_args :: "int + string option"   \<comment> \<open>\<open>Opt::parse()\<close>: leave with a code, or the \<open>--iface\<close> given\<close>
  os_setrlimit :: int
  os_ebpf_load :: "'e + unit"        \<comment> \<open>\<open>aya::Ebpf::load\<close>\<close>
  os_logger_init :: "'e + unit"      \<comment> \<open>\<open>EbpfLogger::init\<close>\<close>
  os_async_fd :: "'e + unit"         \<comment> \<open>\<open>AsyncFd::with_interest\<close>\<close>
  os_programs :: "string list"       \<comment> \<open>the names \<open>program_mut\<close> finds\<close>
  os_try_into :: "'e + unit"
  os_program_load :: "'e + unit"
  os_attach :: "string \<Rightarrow> 'e + unit"
  os_signal :: "'e + unit"           \<comment> \<open>\<open>signal(SignalKind::terminate())\<close>\<close>
  os_wake :: "'e wake"

section \<open>The program\<close>

record opt =
  iface :: string

definition opt_of_args :: "string option \<Rightarrow> opt" where
  "opt_of_args given = \<lparr>iface = (case given of None \<Rightarrow> ''eth0'' | Some i \<Rightarrow> i)\<rparr>"

datatype 'e loader_action =
    Raise_memlock
  | Debug_memlock int        \<comment> \<open>\<open>debug!("remove limit on locked memory failed, ..")\<close>\<close>
  | Load_object
  | Warn_logger 'e           \<comment> \<open>\<open>warn!("failed to initialize eBPF logger: ..")\<close>\<close>
  | Spawn_flush_loop
  | Load_program
  | Attach string
  | Handle_sigterm
  | Println string

datatype 'e loader_end =
    Left int                 \<comment> \<open>by the argument parser\<close>
  | Failed 'e                \<comment> \<open>\<open>Err(e)\<close>\<close>
  | Failed_context string 'e
  | Panicked
  | Waiting
  | Finished                 \<comment> \<open>\<open>Ok(())\<close>\<close>

type_synonym 'e loader_run = "'e loader_action list \<times> 'e loader_end"

definition question :: "'e + 'a \<Rightarrow> 'e loader_action list \<Rightarrow> ('a \<Rightarrow> 'e loader_run) \<Rightarrow> 'e loader_run" where
  \<comment> \<open>\<open>r?\<close>, after the actions \<open>done\<close>\<close>
  "question r done k = (case r of Inl e \<Rightarrow> (done, Failed e) | Inr x \<Rightarrow> k x)"

definition attach_context :: string where
  "attach_context = ''failed to attach the XDP program with default mode - try changing XdpMode::default() to XdpMode::Skb''"

fun flush_loop :: "('e + unit) list \<Rightarrow> nat \<times> bool" where
  \<comment> \<open>the spawned task over the results of \<open>readable_mut\<close>: the flushes made, and whether it panicked\<close>
  "flush_loop [] = (0, False)"
| "flush_loop (r # rs) = (case r of Inl e \<Rightarrow> (0, True)
     | Inr _ \<Rightarrow> (let (n, p) = flush_loop rs in (Suc n, p)))"

definition wait_for_signal :: "'e wake \<Rightarrow> 'e loader_action list \<Rightarrow> 'e loader_run" where
  \<comment> \<open>from \<open>println!("Waiting for Ctrl-C...")\<close> to the end\<close>
  "wait_for_signal wake done =
     (let done = done @ [Println ''Waiting for Ctrl-C...''];
          exiting = (done @ [Println ''Exiting...''], Finished)
      in case wake of
        Ctrl_c result \<Rightarrow> question result done (\<lambda>_. exiting)
      | Sigterm \<Rightarrow> exiting
      | Never \<Rightarrow> (done, Waiting))"

definition main :: "'e host \<Rightarrow> 'e loader_run" where
  "main h = (case os_args h of
     Inl code \<Rightarrow> ([], Left code)
   | Inr given \<Rightarrow>
     let opt = opt_of_args given;
         ret = os_setrlimit h;
         done = [Raise_memlock] @ (if ret \<noteq> 0 then [Debug_memlock ret] else [])
     in question (os_ebpf_load h) done (\<lambda>_.
     let done = done @ [Load_object] in
     let rest = (\<lambda>done.
       if ''mc_sniffer'' \<notin> set (os_programs h) then (done, Panicked) else
       question (os_try_into h) done (\<lambda>_.
       question (os_program_load h) done (\<lambda>_.
       let done = done @ [Load_program] in
       case os_attach h (iface opt) of
         Inl e \<Rightarrow> (done, Failed_context attach_context e)
       | Inr _ \<Rightarrow>
         let done = done @ [Attach (iface opt)] in
         question (os_signal h) done (\<lambda>_.
         wait_for_signal (os_wake h) (done @ [Handle_sigterm])))))
     in case os_logger_init h of
       Inl e \<Rightarrow> rest (done @ [Warn_logger e])
     | Inr _ \<Rightarrow> question (os_async_fd h) done (\<lambda>_. rest (done @ [Spawn_flush_loop]))))"

section \<open>How it ends\<close>

lemma question_simps [simp]:
  "question (Inl e) done k = (done, Failed e)"
  "question (Inr x) done k = k x"
  by (simp_all add: question_def)

lemma question_Finished: "snd (question r done k) = Finished \<longleftrightarrow> (\<exists>x. r = Inr x \<and> snd (k x) = Finished)"
  by (cases r) simp_all

lemma wait_Finished:
  "snd (wait_for_signal wake done) = Finished \<longleftrightarrow> wake = Ctrl_c (Inr ()) \<or> wake = Sigterm"
  by (cases wake) (auto simp: wait_for_signal_def Let_def question_Finished)

lemma wait_Waiting:
  "snd (wait_for_signal wake done) = Waiting \<longleftrightarrow> wake = Never"
  by (cases wake) (auto simp: wait_for_signal_def Let_def question_def split: sum.splits)

text \<open>The actions taken so far do not change the ending.\<close>

lemma wait_end:
  "snd (wait_for_signal wake done) = (case wake of Ctrl_c (Inl e) \<Rightarrow> Failed e | Ctrl_c (Inr _) \<Rightarrow> Finished
     | Sigterm \<Rightarrow> Finished | Never \<Rightarrow> Waiting)"
  by (auto simp: wait_for_signal_def Let_def question_def split: wake.splits sum.splits)

lemma end_ignores_setrlimit: "snd (main (h\<lparr>os_setrlimit := ret\<rparr>)) = snd (main h)"
  by (auto simp: main_def Let_def question_def wait_end split: sum.splits)

lemma end_ignores_logger:
  "snd (main (h\<lparr>os_logger_init := Inl e\<rparr>)) = snd (main (h\<lparr>os_logger_init := Inr (), os_async_fd := Inr ()\<rparr>))"
  by (auto simp: main_def Let_def question_def wait_end split: sum.splits)

text \<open>The log reader flushes once per readiness event and stops for good at the first error.\<close>

lemma flush_loop_eq: "flush_loop rs = (length (takeWhile (\<lambda>r. \<not> isl r) rs), list_ex isl rs)"
  by (induction rs) (auto split: sum.splits)

definition attaches :: "'e host \<Rightarrow> opt \<Rightarrow> bool" where
  \<comment> \<open>every call up to the handler for SIGTERM succeeds\<close>
  "attaches h opt \<longleftrightarrow> os_ebpf_load h = Inr () \<and> (isl (os_logger_init h) \<or> os_async_fd h = Inr ()) \<and>
     ''mc_sniffer'' \<in> set (os_programs h) \<and> os_try_into h = Inr () \<and> os_program_load h = Inr () \<and>
     os_attach h (iface opt) = Inr () \<and> os_signal h = Inr ()"

definition logger_action :: "'e host \<Rightarrow> 'e loader_action" where
  "logger_action h = (case os_logger_init h of Inl e \<Rightarrow> Warn_logger e | Inr _ \<Rightarrow> Spawn_flush_loop)"

definition set_up :: "'e host \<Rightarrow> opt \<Rightarrow> 'e loader_action list" where
  "set_up h opt = [Raise_memlock] @ (if os_setrlimit h \<noteq> 0 then [Debug_memlock (os_setrlimit h)] else []) @
     [Load_object, logger_action h, Load_program, Attach (iface opt), Handle_sigterm]"

lemma main_attaches:
  assumes "os_args h = Inr given" and "attaches h (opt_of_args given)"
  shows "main h = wait_for_signal (os_wake h) (set_up h (opt_of_args given))"
  using assms by (cases "os_logger_init h") (auto simp: main_def attaches_def set_up_def logger_action_def Let_def)

lemma main_not_attached:
  assumes "os_args h = Inr given" and "\<not> attaches h (opt_of_args given)"
  shows "snd (main h) \<noteq> Finished \<and> snd (main h) \<noteq> Waiting \<and> Println line \<notin> set (fst (main h))"
proof -
  have t: "(r :: 'z + unit) \<noteq> Inr () \<Longrightarrow> \<exists>e. r = Inl e" for r
    by (cases r) simp_all
  consider e where "os_ebpf_load h = Inl e" | e where "os_ebpf_load h = Inr ()" "\<not> isl (os_logger_init h)" "os_async_fd h = Inl e"
    | "os_ebpf_load h = Inr ()" "isl (os_logger_init h) \<or> os_async_fd h = Inr ()" "''mc_sniffer'' \<notin> set (os_programs h)"
    | e where "os_ebpf_load h = Inr ()" "isl (os_logger_init h) \<or> os_async_fd h = Inr ()" "''mc_sniffer'' \<in> set (os_programs h)"
        "os_try_into h = Inl e \<or> os_try_into h = Inr () \<and> os_program_load h = Inl e"
    | e where "os_ebpf_load h = Inr ()" "isl (os_logger_init h) \<or> os_async_fd h = Inr ()" "''mc_sniffer'' \<in> set (os_programs h)"
        "os_try_into h = Inr ()" "os_program_load h = Inr ()"
        "os_attach h (iface (opt_of_args given)) = Inl e \<or> os_attach h (iface (opt_of_args given)) = Inr () \<and> os_signal h = Inl e"
    using assms(2) unfolding attaches_def by (metis t)
  then show ?thesis
    by cases (use assms(1) in \<open>auto simp: main_def Let_def split: sum.splits\<close>)
qed

lemma main_left: "os_args h = Inl code \<Longrightarrow> main h = ([], Left code)"
  by (simp add: main_def)

lemma wait_println:
  "\<exists>tail. fst (wait_for_signal wake done) = done @ Println ''Waiting for Ctrl-C...'' # tail"
proof (cases wake)
  case (Ctrl_c r)
  then show ?thesis by (cases r) (simp_all add: wait_for_signal_def Let_def)
qed (simp_all add: wait_for_signal_def Let_def)

section \<open>Properties\<close>

text \<open>
  C37: the loader says it is waiting, or says anything, only once the filter is in place: the
  object is loaded, the program attached to the interface asked for (or to eth0) and the
  handler for SIGTERM installed, in that order and each once.
\<close>

theorem loader_prints_when_attached:
  assumes "Println line \<in> set (fst (main h))"
  shows "\<exists>given tail. os_args h = Inr given \<and> attaches h (opt_of_args given) \<and>
    fst (main h) = set_up h (opt_of_args given) @ Println ''Waiting for Ctrl-C...'' # tail"
proof (cases "os_args h")
  case (Inl code)
  with assms main_left [OF Inl] show ?thesis by simp
next
  case (Inr given)
  with assms main_not_attached [OF Inr, of line] have att: "attaches h (opt_of_args given)" by blast
  show ?thesis
    using wait_println [of "os_wake h" "set_up h (opt_of_args given)"] Inr att
    unfolding main_attaches [OF Inr att] by blast
qed

definition test_host :: "nat host" where
  \<comment> \<open>a host on which every call succeeds, with no argument given, stopped by SIGTERM\<close>
  "test_host = \<lparr>os_args = Inr None, os_setrlimit = - 1, os_ebpf_load = Inr (), os_logger_init = Inl 5,
     os_async_fd = Inr (), os_programs = [''mc_sniffer''], os_try_into = Inr (), os_program_load = Inr (),
     os_attach = (\<lambda>_. Inr ()), os_signal = Inr (), os_wake = Sigterm\<rparr>"

lemma test_host_run:
  "main test_host = ([Raise_memlock, Debug_memlock (- 1), Load_object, Warn_logger 5, Load_program,
     Attach ''eth0'', Handle_sigterm, Println ''Waiting for Ctrl-C...'', Println ''Exiting...''], Finished)"
  by (simp add: main_def test_host_def opt_of_args_def wait_for_signal_def Let_def)

theorem loader_prints_when_attached_witness:
  "\<exists>given tail. os_args test_host = Inr given \<and> attaches test_host (opt_of_args given) \<and>
     fst (main test_host) = set_up test_host (opt_of_args given) @ Println ''Waiting for Ctrl-C...'' # tail"
  by (rule loader_prints_when_attached [of "''Exiting...''"]) (simp add: test_host_run)

text \<open>
  C38: the loader ends well exactly when it could attach and was asked to stop, by SIGTERM or by
  Ctrl-C, and waits for ever exactly when it could attach and never is. Raising the memory
  limit and starting the log reader may fail without a trace in how it ends.
\<close>

theorem loader_ends:
  "(snd (main h) = Finished \<longleftrightarrow> (\<exists>given. os_args h = Inr given \<and> attaches h (opt_of_args given) \<and>
      (os_wake h = Ctrl_c (Inr ()) \<or> os_wake h = Sigterm))) \<and>
   (snd (main h) = Waiting \<longleftrightarrow> (\<exists>given. os_args h = Inr given \<and> attaches h (opt_of_args given) \<and> os_wake h = Never)) \<and>
   snd (main (h\<lparr>os_setrlimit := ret\<rparr>)) = snd (main h) \<and>
   snd (main (h\<lparr>os_logger_init := Inl e\<rparr>)) = snd (main (h\<lparr>os_logger_init := Inr (), os_async_fd := Inr ()\<rparr>))"
proof (cases "os_args h")
  case (Inl code)
  then show ?thesis by (simp add: main_left)
next
  case (Inr given)
  have "snd (main h) = Finished \<longleftrightarrow> attaches h (opt_of_args given) \<and>
      (os_wake h = Ctrl_c (Inr ()) \<or> os_wake h = Sigterm)"
    by (cases "attaches h (opt_of_args given)")
       (simp_all add: main_attaches [OF Inr] wait_Finished main_not_attached [OF Inr])
  moreover have "snd (main h) = Waiting \<longleftrightarrow> attaches h (opt_of_args given) \<and> os_wake h = Never"
    by (cases "attaches h (opt_of_args given)")
       (simp_all add: main_attaches [OF Inr] wait_Waiting main_not_attached [OF Inr])
  ultimately show ?thesis using Inr by (simp add: end_ignores_setrlimit end_ignores_logger)
qed

end
