(* ===== verification/Flow_Order.thy ===== *)
theory Flow_Order
  imports Flow_Table "HOL-Library.Product_Lexorder" "HOL-Library.RBT"
begin

text \<open>
  Flow keys in the order of their fields, as instances of the library's order classes, and
  with them a balanced-tree table: a keyed map that stores the value the program inserts and
  never evicts. It interprets the contract of a table with room for \<open>n\<close> entries, for every \<open>n\<close>; the
  bounded list of \<open>Flow_Table\<close> does for the declared 1024.
\<close>

section \<open>The order\<close>

definition flow_key_fields :: "'a flow_key_scheme \<Rightarrow> u32 \<times> u32 \<times> u16 \<times> u16 \<times> 'a" where
  "flow_key_fields k = (fk_source_address k, fk_destination_address k, fk_source_port k,
     fk_destination_port k, flow_key.more k)"

lemma flow_key_fields_eq [simp]: "flow_key_fields k = flow_key_fields l \<longleftrightarrow> k = l"
  by (cases k, cases l) (simp add: flow_key_fields_def)

instantiation flow_key_ext :: (linorder) linorder
begin

definition less_eq_flow_key_ext :: "'a flow_key_scheme \<Rightarrow> 'a flow_key_scheme \<Rightarrow> bool" where
  "k \<le> l \<longleftrightarrow> flow_key_fields k \<le> flow_key_fields l"

definition less_flow_key_ext :: "'a flow_key_scheme \<Rightarrow> 'a flow_key_scheme \<Rightarrow> bool" where
  "k < l \<longleftrightarrow> flow_key_fields k < flow_key_fields l"

instance
proof
  fix k l n :: "'a flow_key_scheme"
  show "k < l \<longleftrightarrow> k \<le> l \<and> \<not> l \<le> k"
    by (simp add: less_eq_flow_key_ext_def less_flow_key_ext_def less_le_not_le)
  show "k \<le> k" by (simp add: less_eq_flow_key_ext_def)
  show "k \<le> l \<Longrightarrow> l \<le> n \<Longrightarrow> k \<le> n" by (simp add: less_eq_flow_key_ext_def)
  show "k \<le> l \<Longrightarrow> l \<le> k \<Longrightarrow> k = l"
    by (metis less_eq_flow_key_ext_def order_antisym flow_key_fields_eq)
  show "k \<le> l \<or> l \<le> k" by (auto simp: less_eq_flow_key_ext_def)
qed

end

section \<open>A tree of flows\<close>

definition tree_table :: "(flow_key, (flow_key, u8) RBT.rbt) lru_map" where
  "tree_table = \<lparr>
     lru_get_ptr = (\<lambda>m k. (RBT.lookup m k, m)),
     lru_insert = (\<lambda>m k v fl. (Inr (), RBT.insert k v m)),
     lru_remove = (\<lambda>m k. (case RBT.lookup m k of None \<Rightarrow> Inl (- 2) | Some _ \<Rightarrow> Inr (), RBT.delete k m)) \<rparr>"

interpretation tree: roomy_flow_table tree_table "\<lambda>m. dom (RBT.lookup m)" n for n
  by unfold_locales (auto simp: lru_laws_def lru_room_def tree_table_def domIff split: option.splits if_splits)

end
