(* ===== verification/Fake_Packet.thy ===== *)
theory Fake_Packet
  imports Packet_Filter
begin

text \<open>
  \<open>FakePacket\<close> of \<open>ebpf/test_support.rs\<close>: a packet in memory the operating system maps below
  2 GiB, behind an \<open>xdp_md\<close> whose addresses are 32 bits wide. Memory is a partial map from
  addresses to bytes; \<open>mmap\<close> and \<open>munmap\<close>, with the flags the code gives, are a parameter whose
  documented behaviour is \<open>mmap_laws\<close>. Shown: the context a test parses is a real packet holding
  the test's bytes and is what the tests' model \<open>fake_packet_ctx\<close> says, and dropping the packet
  leaves memory as it was.
\<close>

section \<open>Mapped memory\<close>

type_synonym memory = "usize \<rightharpoonup> u8"

definition page_size :: nat where
  "page_size = 4096"

definition pages :: "usize \<Rightarrow> usize \<Rightarrow> usize set" where
  \<comment> \<open>the addresses of the whole pages that hold \<open>len\<close> bytes from \<open>p\<close> on\<close>
  "pages p len = {p..<p + (len + page_size - 1) div page_size * page_size}"

record mmap_ops =
  mmap_32bit :: "memory \<Rightarrow> usize \<Rightarrow> usize option \<times> memory"
    \<comment> \<open>\<open>mmap(null, len, READ|WRITE, PRIVATE|ANONYMOUS|32BIT, -1, 0)\<close>; \<open>None\<close> is \<open>MAP_FAILED\<close>\<close>
  munmap :: "memory \<Rightarrow> usize \<Rightarrow> usize \<Rightarrow> memory"

definition mmap_laws :: "mmap_ops \<Rightarrow> bool" where
  "mmap_laws ops \<longleftrightarrow>
     (\<forall>m len. 0 < len \<longrightarrow> (case mmap_32bit ops m len of
         (None, m') \<Rightarrow> m' = m
       | (Some p, m') \<Rightarrow> 0 < p \<and> p mod page_size = 0 \<and> p + len \<le> 2 ^ 31 \<and>
           (\<forall>q. m' q = (if q \<in> pages p len then Some 0 else m q)) \<and> (\<forall>q \<in> pages p len. m q = None))) \<and>
     (\<forall>m p len q. p mod page_size = 0 \<longrightarrow>
         munmap ops m p len q = (if q \<in> pages p len then None else m q))"

locale page_mapper =
  fixes ops :: mmap_ops
  assumes laws: "mmap_laws ops"
begin

lemma mapped:
  assumes "mmap_32bit ops m len = (Some p, m')" and "0 < len"
  shows "0 < p" "p mod page_size = 0" "p + len \<le> 2 ^ 31"
    and "m' q = (if q \<in> pages p len then Some 0 else m q)" and "q \<in> pages p len \<Longrightarrow> m q = None"
proof -
  note law = conjunct1 [OF laws [unfolded mmap_laws_def], THEN spec, THEN spec, THEN mp, OF assms(2), of m]
  have c: "0 < p \<and> p mod page_size = 0 \<and> p + len \<le> 2 ^ 31 \<and>
      (\<forall>q. m' q = (if q \<in> pages p len then Some 0 else m q)) \<and> (\<forall>q \<in> pages p len. m q = None)"
    by (rule law [unfolded assms(1) prod.case option.case])
  then show "0 < p" "p mod page_size = 0" "p + len \<le> 2 ^ 31" "q \<in> pages p len \<Longrightarrow> m q = None" by blast+
  from c show "m' q = (if q \<in> pages p len then Some 0 else m q)" by (elim conjE) (erule spec)
qed

lemma unmapped: "p mod page_size = 0 \<Longrightarrow> munmap ops m p len q = (if q \<in> pages p len then None else m q)"
  using laws by (simp add: mmap_laws_def)

end

text \<open>A mapper with one place, for a page-aligned address below 2 GiB.\<close>

definition one_place :: mmap_ops where
  "one_place = \<lparr>
     mmap_32bit = (\<lambda>m len.
       if page_size + len \<le> 2 ^ 31 \<and> (\<forall>q \<in> pages page_size len. m q = None)
       then (Some page_size, \<lambda>q. if q \<in> pages page_size len then Some 0 else m q)
       else (None, m)),
     munmap = (\<lambda>m p len q. if q \<in> pages p len then None else m q) \<rparr>"

interpretation one_place: page_mapper one_place
  by unfold_locales (simp add: mmap_laws_def one_place_def page_size_def)

section \<open>\<open>FakePacket\<close>\<close>

record xdp_md =
  md_data :: u32
  md_data_end :: u32
  md_data_meta :: u32
  md_ingress_ifindex :: u32
  md_rx_queue_index :: u32
  md_egress_ifindex :: u32

record fake_packet =
  fp_ptr :: usize
  fp_len :: usize
  fp_md :: xdp_md

datatype new_panic =
    Mmap_failed        \<comment> \<open>\<open>assert_ne!(raw, MAP_FAILED)\<close>\<close>
  | Address_too_large  \<comment> \<open>\<open>expect("mmap(MAP_32BIT) address must fit in u32")\<close>\<close>
  | Fixture_too_large  \<comment> \<open>\<open>expect("test fixture too large")\<close>\<close>

definition u32_try_from :: "usize \<Rightarrow> 'e \<Rightarrow> (u32, 'e) outcome" where
  "u32_try_from n e = (if n < 2 ^ 32 then Inr (word_of_nat n) else Inl (Throw e))"

definition u32_add :: "u32 \<Rightarrow> u32 \<Rightarrow> (u32, 'e) outcome" where
  "u32_add a b = (if unat a + unat b < 2 ^ 32 then Inr (a + b) else Inl Overflow)"

definition copy_nonoverlapping :: "bytes \<Rightarrow> usize \<Rightarrow> memory \<Rightarrow> (memory, 'e) outcome" where
  \<comment> \<open>writing to an address that is not mapped is a fault, as reading from it\<close>
  "copy_nonoverlapping src dst m =
     (if list_all (\<lambda>q. m q \<noteq> None) [dst..<dst + length src]
      then Inr (\<lambda>q. if dst \<le> q \<and> q < dst + length src then Some (src ! (q - dst)) else m q)
      else Inl BadRead)"

definition fake_packet_new :: "mmap_ops \<Rightarrow> bytes \<Rightarrow> memory \<Rightarrow> (fake_packet \<times> memory, new_panic) outcome" where
  "fake_packet_new ops bytes m =
     (let len = length bytes in
      case mmap_32bit ops m (max len 1) of
        (None, m) \<Rightarrow> Inl (Throw Mmap_failed)
      | (Some raw, m) \<Rightarrow>
          let ptr = raw in
          and_then (copy_nonoverlapping bytes ptr m) (\<lambda>m.
          and_then (u32_try_from ptr Address_too_large) (\<lambda>start.
          and_then (u32_try_from len Fixture_too_large) (\<lambda>len32.
          and_then (u32_add start len32) (\<lambda>end.
          Inr (\<lparr>fp_ptr = ptr, fp_len = len,
                fp_md = \<lparr>md_data = start, md_data_end = end, md_data_meta = 0, md_ingress_ifindex = 0,
                         md_rx_queue_index = 0, md_egress_ifindex = 0\<rparr>\<rparr>, m))))))"

definition fake_packet_context :: "fake_packet \<Rightarrow> memory \<Rightarrow> xdp_context" where
  \<comment> \<open>\<open>ctx\<close>: \<open>XdpContext::new\<close> of the \<open>xdp_md\<close>, whose \<open>data\<close> fields are read as addresses\<close>
  "fake_packet_context fp m = \<lparr>xdp_data = unat (md_data (fp_md fp)),
     xdp_data_end = unat (md_data_end (fp_md fp)), xdp_memory = m\<rparr>"

definition fake_packet_drop :: "mmap_ops \<Rightarrow> fake_packet \<Rightarrow> memory \<Rightarrow> memory" where
  "fake_packet_drop ops fp m = munmap ops m (fp_ptr fp) (max (fp_len fp) 1)"

definition tcp_frame_checked :: "bytes \<Rightarrow> bytes option" where
  \<comment> \<open>\<open>tcp_frame\<close> with its \<open>u16::try_from(..).expect("test payload too large")\<close>\<close>
  "tcp_frame_checked payload = (if 20 + 20 + length payload < 2 ^ 16 then Some (tcp_frame payload) else None)"

section \<open>A fake packet is a real one, and leaves no trace\<close>

lemma in_pages:
  assumes "q < len"
  shows "p + q \<in> pages p len"
proof -
  have "len \<le> (len + page_size - 1) div page_size * page_size"
    using div_mult_mod_eq [of "len + page_size - 1" page_size] mod_less_divisor [of page_size "len + page_size - 1"]
    by (simp add: page_size_def)
  with assms show ?thesis by (simp add: pages_def)
qed

lemma fake_packet_new_eq:
  assumes "mmap_laws ops" and mm: "mmap_32bit ops m (max (length bs) 1) = (Some p, m1)"
  shows "fake_packet_new ops bs m = Inr (\<lparr>fp_ptr = p, fp_len = length bs,
      fp_md = \<lparr>md_data = word_of_nat p, md_data_end = word_of_nat (p + length bs), md_data_meta = 0,
        md_ingress_ifindex = 0, md_rx_queue_index = 0, md_egress_ifindex = 0\<rparr>\<rparr>,
      \<lambda>q. if p \<le> q \<and> q < p + length bs then Some (bs ! (q - p)) else m1 q)"
proof -
  have "0 < max (length bs) 1" by simp
  note law = page_mapper.mapped [OF page_mapper.intro [OF assms(1)] mm this]
  have p: "p + length bs < 2 ^ 32" using law(3) by simp
  have "m1 q \<noteq> None" if "p \<le> q" "q < p + length bs" for q
    using law(4) [of q] in_pages [of "q - p" "max (length bs) 1" p] that by simp
  then have "copy_nonoverlapping bs p m1 =
      (Inr (\<lambda>q. if p \<le> q \<and> q < p + length bs then Some (bs ! (q - p)) else m1 q) :: (memory, new_panic) outcome)"
    by (auto simp: copy_nonoverlapping_def list_all_iff)
  with p mm show ?thesis
    by (simp add: fake_packet_new_def u32_try_from_def u32_add_def unat_of_nat Let_def)
qed

lemma fake_packet_facts:
  assumes "mmap_laws ops" and mm: "mmap_32bit ops m (max (length bs) 1) = (Some p, m1)"
    and new: "fake_packet_new ops bs m = Inr (fp, m')"
  shows "packet_ctx (fake_packet_context fp m') bs"
    and "fp_ptr fp = p" "xdp_data (fake_packet_context fp m') = p"
    and "xdp_memory (fake_packet_ctx p bs) \<subseteq>\<^sub>m m'" and "m \<subseteq>\<^sub>m m'"
    and "fake_packet_drop ops fp m' = m"
proof -
  note mapper = page_mapper.intro [OF assms(1)]
  have "0 < max (length bs) 1" by simp
  note law = page_mapper.mapped [OF mapper mm this]
  have p: "p + length bs < 2 ^ 31 + 1" using law(3) by simp
  from new [unfolded fake_packet_new_eq [OF assms(1,2)]] have
    fp: "fp = \<lparr>fp_ptr = p, fp_len = length bs,
      fp_md = \<lparr>md_data = word_of_nat p, md_data_end = word_of_nat (p + length bs), md_data_meta = 0,
        md_ingress_ifindex = 0, md_rx_queue_index = 0, md_egress_ifindex = 0\<rparr>\<rparr>"
    and m': "m' = (\<lambda>q. if p \<le> q \<and> q < p + length bs then Some (bs ! (q - p)) else m1 q)" by simp_all
  have inside: "q \<in> pages p (max (length bs) 1)" if "p \<le> q" "q < p + length bs" for q
    using in_pages [of "q - p" "max (length bs) 1" p] that by simp
  show "fp_ptr fp = p" "xdp_data (fake_packet_context fp m') = p"
    using p by (simp_all add: fp fake_packet_context_def unat_of_nat)
  show "packet_ctx (fake_packet_context fp m') bs"
    using p law(1) by (simp add: packet_ctx_def fake_packet_context_def fp m' unat_of_nat headroom_def del: of_nat_add)
  show "xdp_memory (fake_packet_ctx p bs) \<subseteq>\<^sub>m m'"
    by (auto simp: map_le_def fake_packet_ctx_def m' split: if_splits)
  have old: "m q = None" if "q \<in> pages p (max (length bs) 1)" for q using law(5) that by simp
  show "m \<subseteq>\<^sub>m m'"
    unfolding map_le_def
  proof
    fix q assume "q \<in> dom m"
    then have "q \<notin> pages p (max (length bs) 1)" using old by auto
    then show "m q = m' q" using inside law(4) [of q] by (auto simp: m')
  qed
  show "fake_packet_drop ops fp m' = m"
  proof
    fix q
    show "fake_packet_drop ops fp m' q = m q"
      using page_mapper.unmapped [OF mapper, of p m' "max (length bs) 1" q] law(2) law(4) [of q] old [of q] inside [of q]
      by (auto simp: fake_packet_drop_def fp m' split: if_splits)
  qed
qed

section \<open>Property\<close>

text \<open>
  C35: a \<open>FakePacket\<close> is made whenever the operating system maps the memory, with no overflow and
  no address cut short; its context is a packet holding the test's bytes and nothing else of
  memory has changed, and dropping it gives memory back as it was.
\<close>

theorem fake_packet_roundtrip:
  assumes "mmap_laws ops"
  shows "case fst (mmap_32bit ops m (max (length bs) 1)) of
      None \<Rightarrow> fake_packet_new ops bs m = Inl (Throw Mmap_failed)
    | Some p \<Rightarrow> \<exists>fp m'. fake_packet_new ops bs m = Inr (fp, m') \<and> packet_ctx (fake_packet_context fp m') bs \<and>
        xdp_data (fake_packet_context fp m') = p \<and> xdp_memory (fake_packet_ctx p bs) \<subseteq>\<^sub>m m' \<and> m \<subseteq>\<^sub>m m' \<and>
        fake_packet_drop ops fp m' = m"
proof -
  obtain r m1 where mm: "mmap_32bit ops m (max (length bs) 1) = (r, m1)" by fastforce
  show ?thesis
  proof (cases r)
    case None
    with mm show ?thesis by (simp add: fake_packet_new_def Let_def)
  next
    case (Some p)
    from fake_packet_new_eq [OF assms mm [unfolded Some]] obtain fp m' where
      new: "fake_packet_new ops bs m = Inr (fp, m')" by blast
    note f = fake_packet_facts [OF assms mm [unfolded Some] new]
    show ?thesis
      unfolding mm Some fst_conv option.case by (intro exI [of _ fp] exI [of _ m'] conjI new f)
  qed
qed

theorem fake_packet_roundtrip_witness:
  "\<exists>fp m'. fake_packet_new one_place [0x10, 0x00] Map.empty = Inr (fp, m') \<and>
     packet_ctx (fake_packet_context fp m') [0x10, 0x00] \<and> fake_packet_drop one_place fp m' = Map.empty"
proof -
  have "fst (mmap_32bit one_place Map.empty (max (length [0x10 :: u8, 0x00]) 1)) = Some page_size"
    by (simp add: one_place_def page_size_def)
  with fake_packet_roundtrip [OF one_place.laws, where m = Map.empty and bs = "[0x10, 0x00]"] show ?thesis by auto
qed

end
