(* ===== verification/Unit_Tests.thy ===== *)
theory Unit_Tests
  imports Sniffer_Prelude
begin

text \<open>
  What the translations of the repository's unit tests share. A test is a bool-valued
  definition: it is true when the test function returns, and false when an assertion or an
  \<open>unwrap\<close> of it panics. \<open>ascii\<close> is a Rust byte string \<open>b".."\<close>.
\<close>

definition expect_ok :: "('a, 'e) outcome \<Rightarrow> ('a \<Rightarrow> bool) \<Rightarrow> bool" where
  \<comment> \<open>\<open>let x = r.unwrap(); ..\<close>\<close>
  "expect_ok r test = (case r of Inl _ \<Rightarrow> False | Inr x \<Rightarrow> test x)"

definition is_ok :: "('a, 'e) outcome \<Rightarrow> bool" where
  "is_ok r = expect_ok r (\<lambda>_. True)"

definition ascii :: "string \<Rightarrow> bytes" where
  "ascii = map of_char"

lemma expect_ok_simps [simp]:
  "expect_ok (Inr x) test = test x" "\<not> expect_ok (Inl e) test"
  "is_ok (Inr x)" "\<not> is_ok (Inl e)"
  by (simp_all add: expect_ok_def is_ok_def)

lemma replicate_numeral: "replicate (numeral k) x = x # replicate (pred_numeral k) x"
  by (simp add: numeral_eq_Suc)

end
