(* ===== verification/Packaging.thy ===== *)
theory Packaging
  imports Unit_Tests
begin

text \<open>
  What surrounds the programs: the build scripts \<open>mc-sniffer-ebpf/build.rs\<close> and
  \<open>mc-sniffer/build.rs\<close>, as functions of what \<open>which\<close>, \<open>cargo_metadata\<close>, the path's \<open>parent\<close>
  and \<open>aya_build\<close> return, and the two items of the eBPF binary beside the program, its licence
  string and its panic handler.
\<close>

section \<open>\<open>mc-sniffer-ebpf/build.rs\<close>\<close>

datatype script_end =
    Script_panicked
  | Printed "string list"  \<comment> \<open>returned, with these lines for cargo\<close>

definition ebpf_build_main :: "(string \<Rightarrow> 'e + 'p) \<Rightarrow> ('p \<Rightarrow> string option) \<Rightarrow> script_end" where
  "ebpf_build_main which to_str =
     (case which ''bpf-linker'' of
        Inl _ \<Rightarrow> Script_panicked
      | Inr bpf_linker \<Rightarrow> (case to_str bpf_linker of
          None \<Rightarrow> Script_panicked
        | Some path \<Rightarrow> Printed [''cargo:rerun-if-changed='' @ path]))"

section \<open>\<open>mc-sniffer/build.rs\<close>\<close>

record metadata_package =
  mp_name :: string
  mp_manifest_path :: string

record aya_package =  \<comment> \<open>the fields the script sets; the others are their defaults\<close>
  ap_name :: string
  ap_root_dir :: string

datatype 'e build_error =
    With_context string 'e
  | Anyhow string
  | Toolchain_error 'e

definition ebpf_package_of :: "(string \<Rightarrow> string option) \<Rightarrow> metadata_package list \<Rightarrow> 'e build_error + aya_package" where
  \<comment> \<open>the package to build: the first of its name, in the directory of its manifest\<close>
  "ebpf_package_of parent packages =
     (case List.find (\<lambda>p. mp_name p = ''mc-sniffer-ebpf'') packages of
        None \<Rightarrow> Inl (Anyhow ''mc-sniffer-ebpf package not found'')
      | Some p \<Rightarrow> (case parent (mp_manifest_path p) of
          None \<Rightarrow> Inl (Anyhow (''no parent for '' @ mp_manifest_path p))
        | Some dir \<Rightarrow> Inr \<lparr>ap_name = mp_name p, ap_root_dir = dir\<rparr>))"

definition loader_build_main ::
  "'e + metadata_package list \<Rightarrow> (string \<Rightarrow> string option) \<Rightarrow> (aya_package list \<Rightarrow> 'e + unit) \<Rightarrow>
   'e build_error + unit" where
  "loader_build_main exec parent build_ebpf =
     (case exec of
        Inl e \<Rightarrow> Inl (With_context ''MetadataCommand::exec'' e)
      | Inr packages \<Rightarrow> (case ebpf_package_of parent packages of
          Inl e \<Rightarrow> Inl e
        | Inr p \<Rightarrow> (case build_ebpf [p] of Inl e \<Rightarrow> Inl (Toolchain_error e) | Inr _ \<Rightarrow> Inr ())))"

lemma ebpf_package_of_Inr:
  "ebpf_package_of parent packages = Inr p \<longleftrightarrow>
    (\<exists>i < length packages. mp_name (packages ! i) = ''mc-sniffer-ebpf'' \<and>
       (\<forall>j < i. mp_name (packages ! j) \<noteq> ''mc-sniffer-ebpf'') \<and>
       p = \<lparr>ap_name = ''mc-sniffer-ebpf'', ap_root_dir = the (parent (mp_manifest_path (packages ! i)))\<rparr> \<and>
       parent (mp_manifest_path (packages ! i)) \<noteq> None)"
  (is "_ \<longleftrightarrow> (\<exists>i < length packages. ?named i \<and> ?first i \<and> ?is i \<and> ?parent i)")
proof (cases "List.find (\<lambda>p. mp_name p = ''mc-sniffer-ebpf'') packages")
  case None
  then have "\<not> ?named i" if "i < length packages" for i
    using that unfolding find_None_iff by (meson nth_mem)
  then show ?thesis using None by (auto simp: ebpf_package_of_def)
next
  case (Some q)
  then obtain i where i: "i < length packages" "?named i" "q = packages ! i" "?first i"
    unfolding find_Some_iff by blast
  have "j = i" if "j < length packages" "?named j" "?first j" for j
    using that i linorder_neqE_nat by blast
  with i have "(\<exists>j < length packages. ?named j \<and> ?first j \<and> ?is j \<and> ?parent j) \<longleftrightarrow> ?is i \<and> ?parent i" by blast
  moreover have "ebpf_package_of parent packages = Inr p \<longleftrightarrow> ?is i \<and> ?parent i"
    using Some i(2) by (auto simp: ebpf_package_of_def i(3) split: option.split)
  ultimately show ?thesis by simp
qed

text \<open>
  The loader's build succeeds only if the eBPF crate, and nothing else, was built from the
  directory of its manifest.
\<close>

lemma loader_build_Inr:
  fixes exec :: "'e + metadata_package list"
  shows "loader_build_main exec parent build_ebpf = Inr () \<longleftrightarrow>
    (\<exists>packages p. exec = Inr packages \<and> (ebpf_package_of parent packages :: 'e build_error + aya_package) = Inr p \<and> build_ebpf [p] = Inr ())"
  by (auto simp: loader_build_main_def split: sum.splits)

section \<open>The eBPF binary\<close>

definition LICENSE :: bytes where
  "LICENSE = ascii ''Dual MIT/GPL'' @ [0]"

lemma license_length: "length LICENSE = 13"
  by (simp add: LICENSE_def ascii_def)

partial_function (option) panic :: "'a \<Rightarrow> 'b option" where
  \<comment> \<open>\<open>loop {}\<close>\<close>
  "panic info = panic info"

lemma panic_never_returns:
  fixes info :: 'a
  shows "(panic info :: 'b option) = None"
proof (rule ccontr)
  assume "(panic info :: 'b option) \<noteq> None"
  then obtain y :: 'b where "panic info = Some y" by blast
  then show False by (rule panic.raw_induct [of "\<lambda>_ _. False", rotated])
qed

end
