(* ===== verification/Parser_Tests.thy ===== *)
theory Parser_Tests
  imports Parser Unit_Tests
begin

text \<open>
  The unit tests of \<open>networking/parser.rs\<close>, translated one by one and evaluated in the kernel
  on the model of theory \<open>Parser\<close>.
\<close>

section \<open>\<open>read_varint\<close>\<close>

definition varint_single_byte :: bool where
  "varint_single_byte \<longleftrightarrow> read_varint [0x00] = Inr (0, 1) \<and> read_varint [0x02] = Inr (2, 1)"

definition varint_two_bytes :: bool where
  "varint_two_bytes \<longleftrightarrow> read_varint [0x81, 0x06] = Inr (769, 2)"

definition varint_stops_before_trailing_bytes :: bool where
  "varint_stops_before_trailing_bytes \<longleftrightarrow> read_varint [0x02, 0xAA, 0xBB] = Inr (2, 1)"

definition varint_max_five_bytes_is_valid :: bool where
  "varint_max_five_bytes_is_valid \<longleftrightarrow> read_varint [0xFF, 0xFF, 0xFF, 0xFF, 0x0F] = Inr (- 1, 5)"

definition varint_last_byte_extra_bits_are_truncated_not_rejected :: bool where
  "varint_last_byte_extra_bits_are_truncated_not_rejected \<longleftrightarrow>
     (let buf = [0x80, 0x80, 0x80, 0x80, 0x7F] in read_varint buf = Inr (- 268435456, 5))"

definition varint_six_bytes_is_too_long :: bool where
  "varint_six_bytes_is_too_long \<longleftrightarrow> read_varint [0xFF, 0xFF, 0xFF, 0xFF, 0xFF] = Inl (Throw VarIntTooLong)"

definition varint_truncated_is_eof :: bool where
  "varint_truncated_is_eof \<longleftrightarrow>
     read_varint [0x81] = Inl (Throw UnexpectedEof) \<and> read_varint [] = Inl (Throw UnexpectedEof)"

lemmas read_varint_tests = varint_single_byte_def varint_two_bytes_def
  varint_stops_before_trailing_bytes_def varint_max_five_bytes_is_valid_def
  varint_last_byte_extra_bits_are_truncated_not_rejected_def varint_six_bytes_is_too_long_def
  varint_truncated_is_eof_def

section \<open>\<open>read_mc_string\<close>\<close>

definition string_localhost :: bool where
  "string_localhost \<longleftrightarrow>
     (let buf = 0x09 # ascii ''localhost'' in read_mc_string buf = Inr (ascii ''localhost'', 10))"

definition string_stops_before_trailing_bytes :: bool where
  "string_stops_before_trailing_bytes \<longleftrightarrow>
     (let buf = 0x02 # ascii ''hi'' @ [0xAA, 0xBB] in read_mc_string buf = Inr (ascii ''hi'', 3))"

definition string_truncated_is_eof :: bool where
  "string_truncated_is_eof \<longleftrightarrow>
     (let buf = 0x05 # ascii ''hi'' in read_mc_string buf = Inl (Throw UnexpectedEof))"

definition string_invalid_utf8 :: bool where
  "string_invalid_utf8 \<longleftrightarrow> (let buf = [0x01, 0xFF] in read_mc_string buf = Inl (Throw InvalidUtf8))"

definition string_negative_length_is_rejected :: bool where
  "string_negative_length_is_rejected \<longleftrightarrow>
     (let buf = [0xFF, 0xFF, 0xFF, 0xFF, 0x0F] in read_mc_string buf = Inl (Throw (NegativeLength (- 1))))"

definition string_needing_two_byte_length_varint_is_not_truncated :: bool where
  "string_needing_two_byte_length_varint_is_not_truncated \<longleftrightarrow>
     (let buf = [0x80, 0x01];
          buf = buf @ replicate 127 0x61;
          buf = buf @ [0x5A];
          expected = replicate 127 0x61 @ ascii ''Z''
      in read_mc_string buf = Inr (expected, 130))"

lemmas read_mc_string_tests = string_localhost_def string_stops_before_trailing_bytes_def
  string_truncated_is_eof_def string_invalid_utf8_def string_negative_length_is_rejected_def
  string_needing_two_byte_length_varint_is_not_truncated_def

section \<open>\<open>parse_handshake\<close>\<close>

definition handshake_localhost_login :: bool where
  "handshake_localhost_login \<longleftrightarrow>
     (let buf = [0x00, 0x81, 0x06, 0x09] @ ascii ''localhost'' @ [0x63, 0xDD, 0x02]
      in parse_handshake buf = Inr \<lparr>protocol_version = 769, server_address = ascii ''localhost'',
           server_port = 25565, next_state = Login\<rparr>)"

definition handshake_trailing_bytes_rejected :: bool where
  "handshake_trailing_bytes_rejected \<longleftrightarrow>
     (let buf = [0x00, 0x81, 0x06, 0x09] @ ascii ''localhost'' @ [0x63, 0xDD, 0x02, 0xAA, 0xBB, 0xCC]
      in parse_handshake buf = Inl (Throw (TrailingBytes 3)))"

definition handshake_domain_status :: bool where
  "handshake_domain_status \<longleftrightarrow>
     (let buf = [0x00, 0x81, 0x06, 0x10] @ ascii ''play.example.com'' @ [0x63, 0xDD, 0x01]
      in parse_handshake buf = Inr \<lparr>protocol_version = 769, server_address = ascii ''play.example.com'',
           server_port = 25565, next_state = Status\<rparr>)"

definition handshake_wrong_packet_id :: bool where
  "handshake_wrong_packet_id \<longleftrightarrow>
     (let buf = [0x01, 0x00, 0x00, 0x00, 0x00, 0x00] in parse_handshake buf = Inl (Throw (WrongPacketId 1)))"

definition handshake_invalid_next_state :: bool where
  "handshake_invalid_next_state \<longleftrightarrow>
     (let buf = [0x00, 0x81, 0x06, 0x09] @ ascii ''localhost'' @ [0x63, 0xDD, 0x05]
      in parse_handshake buf = Inl (Throw (InvalidNextState 5)))"

definition handshake_truncated :: bool where
  "handshake_truncated \<longleftrightarrow>
     (let buf = [0x00, 0x81, 0x06, 0x09] @ ascii ''lo'' in parse_handshake buf = Inl (Throw UnexpectedEof))"

definition handshake_truncated_before_port_is_eof_not_panic :: bool where
  "handshake_truncated_before_port_is_eof_not_panic \<longleftrightarrow>
     (let buf = [0x00, 0x00, 0x01] @ ascii ''a'' @ [0xFF] in parse_handshake buf = Inl (Throw UnexpectedEof))"

definition not_minecraft_at_all :: bool where
  "not_minecraft_at_all \<longleftrightarrow>
     (let buf = ascii (''GET / HTTP/1.1'' @ [CHR 0x0D, CHR 0x0A])
      in parse_handshake buf = Inl (Throw (WrongPacketId 71)))"

lemmas parse_handshake_tests = handshake_localhost_login_def handshake_trailing_bytes_rejected_def
  handshake_domain_status_def handshake_wrong_packet_id_def handshake_invalid_next_state_def
  handshake_truncated_def handshake_truncated_before_port_is_eof_not_panic_def not_minecraft_at_all_def

section \<open>They pass\<close>

lemmas eval_varint = read_varint_eq continued_def segment_def
lemmas eval_parser = eval_varint read_mc_string_def parse_handshake_def usize_add_def usize_sub_def
  usize_try_from_i32_def checked_slice_from_eq checked_slice_range_eq array_of_slice_def str_from_utf8_def
  u16_from_be_bytes_def ascii_def

lemma varint_tests_pass:
  "varint_single_byte"
  "varint_two_bytes"
  "varint_stops_before_trailing_bytes"
  "varint_max_five_bytes_is_valid"
  "varint_last_byte_extra_bits_are_truncated_not_rejected"
  "varint_six_bytes_is_too_long"
  "varint_truncated_is_eof"
  by (simp_all add: read_varint_tests eval_varint)

lemma string_tests_pass:
  "string_localhost"
  "string_stops_before_trailing_bytes"
  "string_truncated_is_eof"
  "string_invalid_utf8"
  "string_negative_length_is_rejected"
  by (simp_all add: read_mc_string_tests eval_parser)

lemma long_string_test_passes: "string_needing_two_byte_length_varint_is_not_truncated"
proof -
  let ?s = "replicate 127 0x61 @ [0x5A] :: bytes"
  have "read_varint [0x80, 0x01] = Inr (128, 2)" by (simp add: eval_varint)
  then have "varint [0x80, 0x01] 128" 
    by (rule read_varint_InrE) (auto simp: append_eq_Cons_conv Cons_eq_append_conv)
  moreover have "utf8_valid ?s" by (rule utf8_ascii) (simp add: list_all_iff)
  ultimately have "read_mc_string ([0x80, 0x01] @ ?s @ []) = Inr (?s, 130)"
    using read_mc_string_append [of "[0x80, 0x01]" 128 ?s "[]"] by (simp add: unat_eq_nat_uint)
  then show ?thesis by (simp add: read_mc_string_tests ascii_def)
qed

lemma handshake_tests_pass:
  "handshake_localhost_login"
  "handshake_trailing_bytes_rejected"
  "handshake_domain_status"
  "handshake_wrong_packet_id"
  "handshake_invalid_next_state"
  "handshake_truncated"
  "handshake_truncated_before_port_is_eof_not_panic"
  "not_minecraft_at_all"
  by (simp_all add: parse_handshake_tests eval_parser)

section \<open>The suite\<close>

definition parser_suite :: bool where
  "parser_suite \<longleftrightarrow>
   varint_single_byte \<and>
   varint_two_bytes \<and>
   varint_stops_before_trailing_bytes \<and>
   varint_max_five_bytes_is_valid \<and>
   varint_last_byte_extra_bits_are_truncated_not_rejected \<and>
   varint_six_bytes_is_too_long \<and>
   varint_truncated_is_eof \<and>
   string_localhost \<and>
   string_stops_before_trailing_bytes \<and>
   string_truncated_is_eof \<and>
   string_invalid_utf8 \<and>
   string_negative_length_is_rejected \<and>
   string_needing_two_byte_length_varint_is_not_truncated \<and>
   handshake_localhost_login \<and>
   handshake_trailing_bytes_rejected \<and>
   handshake_domain_status \<and>
   handshake_wrong_packet_id \<and>
   handshake_invalid_next_state \<and>
   handshake_truncated \<and>
   handshake_truncated_before_port_is_eof_not_panic \<and>
   not_minecraft_at_all"

lemma parser_tests_pass: parser_suite
  by (simp add: parser_suite_def varint_tests_pass string_tests_pass long_string_test_passes handshake_tests_pass)

end
