(* ===== verification/Net_Tests.thy ===== *)
theory Net_Tests
  imports Net Unit_Tests
begin

text \<open>
  The unit tests of \<open>networking/net.rs\<close> and \<open>macros.rs\<close>, translated one by one and evaluated
  in the kernel on the models of theories \<open>Net\<close> and \<open>Rust_Macros\<close>.
\<close>

section \<open>\<open>macros.rs\<close>\<close>

datatype malformed = Malformed

definition try_it :: "bytes \<Rightarrow> (u16, malformed) outcome" where
  "try_it packet = and_then (try_slice_into 2 packet 1 3 Malformed) (\<lambda>a. Inr (u16_from_be_bytes a))"

definition it_works :: bool where
  "it_works \<longleftrightarrow> (let buf = [0xAA, 0x00, 0x39, 0xBB] in try_it buf = Inr 0x0039)"

definition it_errors_on_short_buf :: bool where
  "it_errors_on_short_buf \<longleftrightarrow> (let buf = [0xAA] in try_it buf = Inl (Throw Malformed))"

section \<open>\<open>parse_ethernet\<close>\<close>

definition reads_ipv4_ethertype_and_payload :: bool where
  "reads_ipv4_ethertype_and_payload \<longleftrightarrow>
     expect_ok (parse_ethernet LOCALHOST_LOGIN_FRAME) (\<lambda>frame.
       ef_ethertype frame = ETHERTYPE_IPV4 \<and> ef_payload frame = drop 14 LOCALHOST_LOGIN_FRAME)"

definition reports_non_ipv4_ethertype :: bool where
  "reports_non_ipv4_ethertype \<longleftrightarrow>
     (let frame = LOCALHOST_LOGIN_FRAME; frame = frame[12 := 0x08]; frame = frame[13 := 0x06]
      in expect_ok (parse_ethernet frame) (\<lambda>frame. ef_ethertype frame = 0x0806))"

definition ethernet_too_short :: bool where
  "ethernet_too_short \<longleftrightarrow> (let buf = replicate 13 0 in parse_ethernet buf = Inl (Throw TooShort))"

definition ethernet_exact_minimum_length_succeeds :: bool where
  "ethernet_exact_minimum_length_succeeds \<longleftrightarrow>
     (let buf = replicate 14 0; buf = buf[12 := 0x08]; buf = buf[13 := 0x00]
      in expect_ok (parse_ethernet buf) (\<lambda>frame. ef_ethertype frame = ETHERTYPE_IPV4 \<and> ef_payload frame = []))"

definition ethernet_one_byte_over_minimum_succeeds :: bool where
  "ethernet_one_byte_over_minimum_succeeds \<longleftrightarrow>
     (let buf = replicate 15 0; buf = buf[12 := 0x08]; buf = buf[13 := 0x00]; buf = buf[14 := 0xAB]
      in expect_ok (parse_ethernet buf) (\<lambda>frame. ef_ethertype frame = ETHERTYPE_IPV4 \<and> ef_payload frame = [0xAB]))"

section \<open>\<open>parse_ipv4\<close>\<close>

definition reads_header_and_trims_payload_to_total_length :: bool where
  "reads_header_and_trims_payload_to_total_length \<longleftrightarrow>
     expect_ok (parse_ethernet LOCALHOST_LOGIN_FRAME) (\<lambda>eth.
     expect_ok (parse_ipv4 (ef_payload eth)) (\<lambda>ip.
       ih_protocol (is_header ip) = IP_PROTOCOL_TCP \<and>
       ih_source (is_header ip) = [10, 0, 1, 4] \<and>
       ih_destination (is_header ip) = [10, 43, 255, 65] \<and>
       length (is_payload ip) = 37))"

definition trims_trailing_ethernet_padding :: bool where
  "trims_trailing_ethernet_padding \<longleftrightarrow>
     (let padded = LOCALHOST_LOGIN_FRAME; padded = padded @ [0, 0, 0, 0, 0, 0] in
      expect_ok (parse_ethernet padded) (\<lambda>eth.
      expect_ok (parse_ipv4 (ef_payload eth)) (\<lambda>ip. length (is_payload ip) = 37)))"

definition rejects_non_tcp_protocol :: bool where
  "rejects_non_tcp_protocol \<longleftrightarrow>
     (let frame = LOCALHOST_LOGIN_FRAME; frame = frame[14 + 9 := 17] in
      expect_ok (parse_ethernet frame) (\<lambda>eth.
        parse_ipv4 (ef_payload eth) = Inl (Throw (UnsupportedIpProtocol 17))))"

definition rejects_non_v4_version :: bool where
  "rejects_non_v4_version \<longleftrightarrow>
     (let frame = LOCALHOST_LOGIN_FRAME; frame = frame[14 := 0x65] in
      expect_ok (parse_ethernet frame) (\<lambda>eth.
        parse_ipv4 (ef_payload eth) = Inl (Throw (UnsupportedIpVersion 6))))"

definition rejects_total_length_greater_than_packet_len :: bool where
  "rejects_total_length_greater_than_packet_len \<longleftrightarrow>
     (let frame = LOCALHOST_LOGIN_FRAME; frame = frame[14 + 2 := 0x00]; frame = frame[14 + 3 := 0xC8] in
      expect_ok (parse_ethernet frame) (\<lambda>eth.
        parse_ipv4 (ef_payload eth) = Inl (Throw TooShort)))"

definition rejects_total_length_less_than_header_len :: bool where
  "rejects_total_length_less_than_header_len \<longleftrightarrow>
     (let frame = LOCALHOST_LOGIN_FRAME; frame = frame[14 + 2 := 0x00]; frame = frame[14 + 3 := 0x0A] in
      expect_ok (parse_ethernet frame) (\<lambda>eth.
        case parse_ipv4 (ef_payload eth) of Inl (Throw TooShort) \<Rightarrow> True | _ \<Rightarrow> False))"

definition rejects_undersized_packet_even_when_ihl_claims_it_fits :: bool where
  "rejects_undersized_packet_even_when_ihl_claims_it_fits \<longleftrightarrow>
     (let buf = replicate 15 0x40 in parse_ipv4 buf = Inl (Throw TooShort))"

section \<open>\<open>parse_tcp\<close>\<close>

definition reads_ports_flags_and_payload :: bool where
  "reads_ports_flags_and_payload \<longleftrightarrow>
     expect_ok (parse_ethernet LOCALHOST_LOGIN_FRAME) (\<lambda>eth.
     expect_ok (parse_ipv4 (ef_payload eth)) (\<lambda>ip.
     expect_ok (parse_tcp (is_payload ip)) (\<lambda>tcp.
       ts_source_port tcp = 54321 \<and> ts_destination_port tcp = 25565 \<and>
       \<not> is_syn (ts_flags tcp) \<and> is_ack (ts_flags tcp) \<and> \<not> is_fin (ts_flags tcp) \<and>
       \<not> is_rst (ts_flags tcp) \<and> is_psh (ts_flags tcp) \<and>
       length (ts_payload tcp) = 17 \<and> ts_payload tcp ! 0 = 0x10)))"

definition syn_has_no_payload :: bool where
  "syn_has_no_payload \<longleftrightarrow>
     (let syn_segment = [
          0xD4, 0x31, 0x63, 0xDD,
          0x00, 0x00, 0x00, 0x00,
          0x00, 0x00, 0x00, 0x00,
          0x50, 0x02,
          0x20, 0x00, 0x00, 0x00, 0x00, 0x00] in
      expect_ok (parse_tcp syn_segment) (\<lambda>tcp.
        is_syn (ts_flags tcp) \<and> \<not> is_ack (ts_flags tcp) \<and> \<not> is_fin (ts_flags tcp) \<and>
        \<not> is_rst (ts_flags tcp) \<and> \<not> is_psh (ts_flags tcp) \<and> ts_payload tcp = []))"

definition tcp_segment_too_short :: bool where
  "tcp_segment_too_short \<longleftrightarrow> (let buf = replicate 19 0 in parse_tcp buf = Inl (Throw TooShort))"

definition segment_rejects_undersized_header :: bool where
  "segment_rejects_undersized_header \<longleftrightarrow>
     (let segment = [
          0xD4, 0x31, 0x63, 0xDD,
          0x00, 0x00, 0x00, 0x00,
          0x00, 0x00, 0x00, 0x00,
          0x00, 0x02,
          0x20, 0x00, 0x00, 0x00, 0x00, 0x00] in
      parse_tcp segment = Inl (Throw TooShort))"

section \<open>They pass\<close>

lemmas macro_tests = it_works_def it_errors_on_short_buf_def try_it_def

lemmas ethernet_tests = reads_ipv4_ethertype_and_payload_def reports_non_ipv4_ethertype_def
  ethernet_too_short_def ethernet_exact_minimum_length_succeeds_def ethernet_one_byte_over_minimum_succeeds_def

lemmas ipv4_tests = reads_header_and_trims_payload_to_total_length_def trims_trailing_ethernet_padding_def
  rejects_non_tcp_protocol_def rejects_non_v4_version_def rejects_total_length_greater_than_packet_len_def
  rejects_total_length_less_than_header_len_def rejects_undersized_packet_even_when_ihl_claims_it_fits_def

lemmas tcp_tests = reads_ports_flags_and_payload_def syn_has_no_payload_def tcp_segment_too_short_def
  segment_rejects_undersized_header_def

lemmas eval_net = parse_ethernet_eq parse_ipv4_eq parse_tcp_eq ETHERTYPE_IPV4_def IP_PROTOCOL_TCP_def
  u16_from_be_bytes_def LOCALHOST_LOGIN_FRAME_def

lemma macro_tests_pass: "it_works" "it_errors_on_short_buf"
  by (simp_all add: macro_tests try_slice_into_eq u16_from_be_bytes_def)

lemma ethernet_tests_pass:
  "reads_ipv4_ethertype_and_payload" "reports_non_ipv4_ethertype" "ethernet_too_short"
  "ethernet_exact_minimum_length_succeeds" "ethernet_one_byte_over_minimum_succeeds"
  by (simp_all add: ethernet_tests eval_net replicate_numeral)

lemma ipv4_tests_pass:
  "reads_header_and_trims_payload_to_total_length" "trims_trailing_ethernet_padding"
  "rejects_non_tcp_protocol" "rejects_non_v4_version" "rejects_total_length_greater_than_packet_len"
  "rejects_total_length_less_than_header_len" "rejects_undersized_packet_even_when_ihl_claims_it_fits"
  by (simp_all add: ipv4_tests eval_net)

lemma tcp_tests_pass:
  "reads_ports_flags_and_payload" "syn_has_no_payload" "tcp_segment_too_short" "segment_rejects_undersized_header"
  by (simp_all add: tcp_tests eval_net tcp_flags_from_u8_def flag_bits)

section \<open>The suite\<close>

definition net_suite :: bool where
  "net_suite \<longleftrightarrow>
   it_works \<and>
   it_errors_on_short_buf \<and>
   reads_ipv4_ethertype_and_payload \<and>
   reports_non_ipv4_ethertype \<and>
   ethernet_too_short \<and>
   ethernet_exact_minimum_length_succeeds \<and>
   ethernet_one_byte_over_minimum_succeeds \<and>
   reads_header_and_trims_payload_to_total_length \<and>
   trims_trailing_ethernet_padding \<and>
   rejects_non_tcp_protocol \<and>
   rejects_non_v4_version \<and>
   rejects_total_length_greater_than_packet_len \<and>
   rejects_total_length_less_than_header_len \<and>
   rejects_undersized_packet_even_when_ihl_claims_it_fits \<and>
   reads_ports_flags_and_payload \<and>
   syn_has_no_payload \<and>
   tcp_segment_too_short \<and>
   segment_rejects_undersized_header"

lemma net_tests_pass: net_suite
  by (simp add: net_suite_def macro_tests_pass ethernet_tests_pass ipv4_tests_pass tcp_tests_pass)

end
