(* ===== verification/Header_Tests.thy ===== *)
theory Header_Tests
  imports Ebpf_Headers Unit_Tests
begin

text \<open>
  The unit tests of the packet-memory parsers, \<open>ebpf/networking/ethernet.rs\<close>, \<open>ipv4.rs\<close> and
  \<open>tcp.rs\<close>. A test runs on \<open>FakePacket\<close>s, whose address \<open>p\<close> the operating system chooses below
  2 GiB: each is a function of it, and of the crate \<open>network-types\<close>, and is shown to pass
  whatever the address.
\<close>

section \<open>\<open>ethernet.rs\<close>\<close>

definition MIN_ETH_FRAME :: bytes where
  "MIN_ETH_FRAME = [
     0x02, 0x00, 0x00, 0x00, 0x00, 0x01,
     0x02, 0x00, 0x00, 0x00, 0x00, 0x02,
     0x08, 0x00]"

definition accepts_ipv4_ethertype :: "network_types \<Rightarrow> usize \<Rightarrow> bool" where
  "accepts_ipv4_ethertype N p \<longleftrightarrow> check_header N (fake_packet_ctx p MIN_ETH_FRAME) = Inr ()"

definition passes_through_non_ipv4_ethertype :: "network_types \<Rightarrow> usize \<Rightarrow> bool" where
  "passes_through_non_ipv4_ethertype N p \<longleftrightarrow>
     (let frame = MIN_ETH_FRAME; frame = frame[12 := 0x08]; frame = frame[13 := 0x06]
      in check_header N (fake_packet_ctx p frame) = Inl (Throw XDP_PASS))"

definition too_short_is_aborted :: "network_types \<Rightarrow> usize \<Rightarrow> bool" where
  "too_short_is_aborted N p \<longleftrightarrow> check_header N (fake_packet_ctx p (replicate 13 0)) = Inl (Throw XDP_ABORTED)"

definition exact_minimum_length_succeeds :: "network_types \<Rightarrow> usize \<Rightarrow> bool" where
  "exact_minimum_length_succeeds N p \<longleftrightarrow> check_header N (fake_packet_ctx p MIN_ETH_FRAME) = Inr ()"

definition one_byte_over_minimum_succeeds :: "network_types \<Rightarrow> usize \<Rightarrow> bool" where
  "one_byte_over_minimum_succeeds N p \<longleftrightarrow>
     (let frame = MIN_ETH_FRAME; frame = frame @ [0xAB]
      in check_header N (fake_packet_ctx p frame) = Inr ())"

section \<open>\<open>ipv4.rs\<close>\<close>

definition VALID_FRAME :: bytes where
  \<comment> \<open>the same bytes as \<open>LOCALHOST_LOGIN_FRAME\<close> of \<open>net.rs\<close>\<close>
  "VALID_FRAME = [
     0x02, 0x00, 0x00, 0x00, 0x00, 0x01,
     0x02, 0x00, 0x00, 0x00, 0x00, 0x02,
     0x08, 0x00,
     0x45, 0x00,
     0x00, 0x39,
     0x12, 0x34,
     0x00, 0x00,
     0x40, 0x06,
     0x00, 0x00,
     0x0A, 0x00, 0x01, 0x04,
     0x0A, 0x2B, 0xFF, 0x41,
     0xD4, 0x31,
     0x63, 0xDD,
     0x00, 0x00, 0x00, 0x01,
     0x00, 0x00, 0x00, 0x01,
     0x50, 0x18,
     0x20, 0x00,
     0x00, 0x00,
     0x00, 0x00,
     0x10, 0x00, 0x81, 0x06, 0x09,
     0x6C, 0x6F, 0x63, 0x61, 0x6C, 0x68, 0x6F, 0x73, 0x74,
     0x63, 0xDD, 0x02]"

definition assert_dropped :: "(ipv4_packet, xdp_action) outcome \<Rightarrow> bool" where
  "assert_dropped result = (case result of Inl (Throw action) \<Rightarrow> action = action_drop | _ \<Rightarrow> False)"

definition succeeds_and_reads_addr_port_len :: "network_types \<Rightarrow> usize \<Rightarrow> bool" where
  "succeeds_and_reads_addr_port_len N p \<longleftrightarrow>
     expect_ok (ipv4_try_parse N (fake_packet_ctx p VALID_FRAME)) (\<lambda>ipv4.
       ip4_source_address ipv4 = u32_from_be_bytes [10, 0, 1, 4] \<and>
       ip4_source_port ipv4 = 54321 \<and> ip4_total_size ipv4 = 57)"

definition ipv4_tolerates_trailing_ethernet_padding :: "network_types \<Rightarrow> usize \<Rightarrow> bool" where
  "ipv4_tolerates_trailing_ethernet_padding N p \<longleftrightarrow>
     (let frame = VALID_FRAME @ [0, 0, 0, 0, 0, 0]
      in is_ok (ipv4_try_parse N (fake_packet_ctx p frame)))"

definition passes_non_tcp_protocol :: "network_types \<Rightarrow> usize \<Rightarrow> bool" where
  "passes_non_tcp_protocol N p \<longleftrightarrow>
     (let frame = VALID_FRAME; frame = frame[14 + 9 := 17] in
      case ipv4_try_parse N (fake_packet_ctx p frame) of
        Inl (Throw action) \<Rightarrow> action = action_ok | _ \<Rightarrow> False)"

definition options_frame :: bytes where
  \<comment> \<open>the frame of \<open>reads_ports_after_ip_options\<close> and \<open>header_found_after_ip_options\<close>\<close>
  "options_frame =
     (let frame = take 34 VALID_FRAME; frame = frame[14 := 0x46]; frame = frame[17 := 0x39 + 4];
          frame = frame @ [0x01, 0x01, 0x01, 0x01] in frame @ drop 34 VALID_FRAME)"

definition reads_ports_after_ip_options :: "network_types \<Rightarrow> usize \<Rightarrow> bool" where
  "reads_ports_after_ip_options N p \<longleftrightarrow>
     expect_ok (ipv4_try_parse N (fake_packet_ctx p options_frame)) (\<lambda>ipv4.
       ip4_header_size ipv4 = 24 \<and> ip4_source_port ipv4 = 54321 \<and> ip4_destination_port ipv4 = 25565)"

definition rejects_ihl_below_minimum :: "network_types \<Rightarrow> usize \<Rightarrow> bool" where
  "rejects_ihl_below_minimum N p \<longleftrightarrow>
     (let frame = VALID_FRAME; frame = frame[14 := 0x44]
      in assert_dropped (ipv4_try_parse N (fake_packet_ctx p frame)))"

definition rejects_first_fragment :: "network_types \<Rightarrow> usize \<Rightarrow> bool" where
  "rejects_first_fragment N p \<longleftrightarrow>
     (let frame = VALID_FRAME; frame = frame[14 + 6 := 0x20]
      in assert_dropped (ipv4_try_parse N (fake_packet_ctx p frame)))"

definition rejects_later_fragment :: "network_types \<Rightarrow> usize \<Rightarrow> bool" where
  "rejects_later_fragment N p \<longleftrightarrow>
     (let frame = VALID_FRAME; frame = frame[14 + 7 := 0x01]
      in assert_dropped (ipv4_try_parse N (fake_packet_ctx p frame)))"

definition allows_dont_fragment_flag :: "network_types \<Rightarrow> usize \<Rightarrow> bool" where
  "allows_dont_fragment_flag N p \<longleftrightarrow>
     (let frame = VALID_FRAME; frame = frame[14 + 6 := 0x40]
      in is_ok (ipv4_try_parse N (fake_packet_ctx p frame)))"

definition packet_rejects_non_v4_version :: "network_types \<Rightarrow> usize \<Rightarrow> bool" where
  "packet_rejects_non_v4_version N p \<longleftrightarrow>
     (let frame = VALID_FRAME; frame = frame[14 := 0x65]
      in assert_dropped (ipv4_try_parse N (fake_packet_ctx p frame)))"

definition packet_rejects_total_length_greater_than_packet_len :: "network_types \<Rightarrow> usize \<Rightarrow> bool" where
  "packet_rejects_total_length_greater_than_packet_len N p \<longleftrightarrow>
     (let frame = VALID_FRAME; frame = frame[14 + 2 := 0x00]; frame = frame[14 + 3 := 0xC8]
      in assert_dropped (ipv4_try_parse N (fake_packet_ctx p frame)))"

definition rejects_total_length_smaller_than_ip_header :: "network_types \<Rightarrow> usize \<Rightarrow> bool" where
  "rejects_total_length_smaller_than_ip_header N p \<longleftrightarrow>
     (let frame = VALID_FRAME; frame = frame[14 + 2 := 0x00]; frame = frame[14 + 3 := 0x0A]
      in assert_dropped (ipv4_try_parse N (fake_packet_ctx p frame)))"

section \<open>\<open>tcp.rs\<close>\<close>

definition VALID_FRAME_tcp :: bytes where
  \<comment> \<open>\<open>VALID_FRAME\<close> of \<open>tcp.rs\<close>\<close>
  "VALID_FRAME_tcp = [
     0x02, 0x00, 0x00, 0x00, 0x00, 0x01,
     0x02, 0x00, 0x00, 0x00, 0x00, 0x02,
     0x08, 0x00,
     0x45, 0x00,
     0x00, 0x39,
     0x12, 0x34,
     0x00, 0x00,
     0x40, 0x06,
     0x00, 0x00,
     0x0A, 0x00, 0x01, 0x04,
     0x0A, 0x2B, 0xFF, 0x41,
     0xD4, 0x31,
     0x63, 0xDD,
     0x00, 0x00, 0x00, 0x01,
     0x00, 0x00, 0x00, 0x01,
     0x50, 0x18,
     0x20, 0x00,
     0x00, 0x00,
     0x00, 0x00,
     0x10, 0x00, 0x81, 0x06, 0x09,
     0x6C, 0x6F, 0x63, 0x61, 0x6C, 0x68, 0x6F, 0x73, 0x74,
     0x63, 0xDD, 0x02]"

lemma VALID_FRAME_tcp [simp]: "VALID_FRAME_tcp = VALID_FRAME"
  by (simp add: VALID_FRAME_tcp_def VALID_FRAME_def)

definition assert_rejected :: "(tcp_packet, xdp_action) outcome \<Rightarrow> xdp_action \<Rightarrow> bool" where
  "assert_rejected result expected = (case result of Inl (Throw action) \<Rightarrow> action = expected | _ \<Rightarrow> False)"

definition reads_ports_and_flags :: "network_types \<Rightarrow> usize \<Rightarrow> bool" where
  "reads_ports_and_flags N p \<longleftrightarrow>
     expect_ok (tcp_try_parse N (fake_packet_ctx p VALID_FRAME_tcp)) (\<lambda>tcp.
       tp_source_port tcp = 54321 \<and> tp_destination_port tcp = 25565 \<and>
       \<not> is_syn (tp_flags tcp) \<and> is_ack (tp_flags tcp) \<and> \<not> is_fin (tp_flags tcp) \<and>
       \<not> is_rst (tp_flags tcp) \<and> is_psh (tp_flags tcp))"

definition reports_payload_offset_and_len :: "network_types \<Rightarrow> usize \<Rightarrow> bool" where
  "reports_payload_offset_and_len N p \<longleftrightarrow>
     expect_ok (tcp_try_parse N (fake_packet_ctx p VALID_FRAME_tcp)) (\<lambda>tcp.
       tp_payload_offset tcp = 14 + 20 + 20 \<and> tp_payload_len tcp = 17)"

definition trailing_padding_is_not_payload :: "network_types \<Rightarrow> usize \<Rightarrow> bool" where
  "trailing_padding_is_not_payload N p \<longleftrightarrow>
     (let frame = VALID_FRAME_tcp @ [0, 0, 0, 0, 0, 0] in
      expect_ok (tcp_try_parse N (fake_packet_ctx p frame)) (\<lambda>tcp. tp_payload_len tcp = 17))"

definition header_found_after_ip_options :: "network_types \<Rightarrow> usize \<Rightarrow> bool" where
  "header_found_after_ip_options N p \<longleftrightarrow>
     expect_ok (tcp_try_parse N (fake_packet_ctx p options_frame)) (\<lambda>tcp.
       tp_source_port tcp = 54321 \<and> is_psh (tp_flags tcp) \<and> is_ack (tp_flags tcp) \<and>
       tp_payload_offset tcp = 14 + 24 + 20 \<and> tp_payload_len tcp = 17)"

definition bare_ack_has_empty_payload :: "network_types \<Rightarrow> usize \<Rightarrow> bool" where
  "bare_ack_has_empty_payload N p \<longleftrightarrow>
     (let frame = take 54 VALID_FRAME_tcp; frame = frame[17 := 40]; frame = frame[14 + 20 + 13 := 0x10] in
      expect_ok (tcp_try_parse N (fake_packet_ctx p frame)) (\<lambda>tcp. tp_payload_len tcp = 0))"

definition syn_flag_is_read_correctly :: "network_types \<Rightarrow> usize \<Rightarrow> bool" where
  "syn_flag_is_read_correctly N p \<longleftrightarrow>
     (let frame = VALID_FRAME_tcp; frame = frame[14 + 20 + 13 := 0x02] in
      expect_ok (tcp_try_parse N (fake_packet_ctx p frame)) (\<lambda>tcp.
        is_syn (tp_flags tcp) \<and> \<not> is_ack (tp_flags tcp) \<and> \<not> is_fin (tp_flags tcp) \<and>
        \<not> is_rst (tp_flags tcp) \<and> \<not> is_psh (tp_flags tcp)))"

definition too_short_is_rejected :: "network_types \<Rightarrow> usize \<Rightarrow> bool" where
  "too_short_is_rejected N p \<longleftrightarrow>
     assert_rejected (tcp_try_parse N (fake_packet_ctx p (take (34 + 19) VALID_FRAME_tcp))) XDP_DROP"

definition rejects_undersized_header :: "network_types \<Rightarrow> usize \<Rightarrow> bool" where
  "rejects_undersized_header N p \<longleftrightarrow>
     (let frame = VALID_FRAME_tcp; frame = frame[14 + 20 + 12 := 0x00]
      in assert_rejected (tcp_try_parse N (fake_packet_ctx p frame)) XDP_DROP)"

definition tcp_tolerates_trailing_ethernet_padding :: "network_types \<Rightarrow> usize \<Rightarrow> bool" where
  "tcp_tolerates_trailing_ethernet_padding N p \<longleftrightarrow>
     (let frame = VALID_FRAME_tcp @ [0, 0, 0, 0, 0, 0]
      in is_ok (tcp_try_parse N (fake_packet_ctx p frame)))"

definition rejects_options_length_only_satisfied_by_trailing_padding ::
    "network_types \<Rightarrow> usize \<Rightarrow> usize \<Rightarrow> bool" where
  \<comment> \<open>two packets at a time\<close>
  "rejects_options_length_only_satisfied_by_trailing_padding N p q \<longleftrightarrow>
     (let frame = take (14 + 20 + 20) VALID_FRAME_tcp; frame = frame[16 := 0x00]; frame = frame[17 := 0x28];
          frame = frame[14 + 20 + 12 := 0x60];
          padded = frame @ [0, 0, 0, 0, 0, 0]
      in assert_rejected (tcp_try_parse N (fake_packet_ctx p frame)) XDP_DROP \<and>
         assert_rejected (tcp_try_parse N (fake_packet_ctx q padded)) XDP_DROP)"

section \<open>They pass\<close>

definition low_address :: "usize \<Rightarrow> bool" where
  \<comment> \<open>what \<open>mmap\<close> with \<open>MAP_32BIT\<close> returns\<close>
  "low_address p \<longleftrightarrow> 0 < p \<and> p < 2 ^ 31"

lemma low_packet: "low_address p \<Longrightarrow> length bs \<le> 2000 \<Longrightarrow> packet_ctx (fake_packet_ctx p bs) bs"
  by (rule fake_packet_ctx) (simp_all add: low_address_def headroom_def)

lemmas ethernet_test_defs = accepts_ipv4_ethertype_def passes_through_non_ipv4_ethertype_def
  too_short_is_aborted_def exact_minimum_length_succeeds_def one_byte_over_minimum_succeeds_def

lemma check_header_low:
  assumes "header_layout N" and "low_address p" and "length bs \<le> 2000"
  shows "check_header N (fake_packet_ctx p bs) =
    (if length bs < 14 then Inl (Throw XDP_ABORTED)
     else if u16_from_be_bytes [bs ! 12, bs ! 13] = 0x0800 then Inr () else Inl (Throw XDP_PASS))"
  by (rule check_header_eq [OF assms(1) low_packet [OF assms(2,3)]])

lemma check_header_tests_pass:
  assumes "header_layout N" and "low_address p"
  shows "accepts_ipv4_ethertype N p" "passes_through_non_ipv4_ethertype N p" "too_short_is_aborted N p"
    "exact_minimum_length_succeeds N p" "one_byte_over_minimum_succeeds N p"
  by (simp_all add: ethernet_test_defs check_header_low [OF assms] MIN_ETH_FRAME_def u16_from_be_bytes_def)

lemmas frame_fields = frame_ihl_def frame_tot_len_def frame_tcp_def frame_doff_def frame_fragmented_def
lemmas frame_values = frame_fields VALID_FRAME_def options_frame_def u16_from_be_bytes_def u32_from_be_bytes_def

lemma ipv4_try_parse_low:
  assumes "header_layout N" and "low_address p" and "length bs \<le> 2000"
  shows "ipv4_try_parse N (fake_packet_ctx p bs) =
    (if ipv4_acceptable bs then Inr (ipv4_of_frame bs) else Inl (Throw (ipv4_reject_action N bs)))"
  by (rule ipv4_try_parse_cases [OF assms(1) low_packet [OF assms(2,3)]])

lemma ipv4_accept_tests_pass:
  assumes "header_layout N" and "low_address p"
  shows "succeeds_and_reads_addr_port_len N p" "ipv4_tolerates_trailing_ethernet_padding N p"
    "reads_ports_after_ip_options N p" "allows_dont_fragment_flag N p"
  by (simp_all add: succeeds_and_reads_addr_port_len_def ipv4_tolerates_trailing_ethernet_padding_def
      reads_ports_after_ip_options_def allows_dont_fragment_flag_def ipv4_try_parse_low [OF assms]
      ipv4_acceptable_def ipv4_of_frame_def frame_values)

lemma ipv4_reject_tests_pass:
  assumes "header_layout N" and "low_address p"
  shows "rejects_ihl_below_minimum N p" "rejects_first_fragment N p" "rejects_later_fragment N p" "packet_rejects_non_v4_version N p" "packet_rejects_total_length_greater_than_packet_len N p" "rejects_total_length_smaller_than_ip_header N p"
  by (simp_all add: rejects_ihl_below_minimum_def rejects_first_fragment_def rejects_later_fragment_def
      packet_rejects_non_v4_version_def packet_rejects_total_length_greater_than_packet_len_def
      rejects_total_length_smaller_than_ip_header_def assert_dropped_def action_defs
      ipv4_try_parse_low [OF assms] ipv4_acceptable_def ipv4_reject_action_def frame_values)

definition knows_udp :: "network_types \<Rightarrow> bool" where
  \<comment> \<open>\<open>IpProto\<close> has a variant for protocol 17\<close>
  "knows_udp N \<longleftrightarrow> (\<forall>h. length h = 20 \<and> h ! 9 = 17 \<longrightarrow> \<not> isl (ip_proto N h))"

lemma udp_test_passes:
  assumes "header_layout N" and "low_address p" and "knows_udp N"
  shows "passes_non_tcp_protocol N p"
proof -
  have "\<not> isl (ip_proto N (take 20 (drop 14 (VALID_FRAME[23 := 17]))))"
    using assms(3) unfolding knows_udp_def by (auto simp: VALID_FRAME_def)
  then show ?thesis
    by (simp add: passes_non_tcp_protocol_def action_defs ipv4_try_parse_low [OF assms(1,2)]
        ipv4_acceptable_def ipv4_reject_action_def VALID_FRAME_def)
qed

lemma tcp_try_parse_low:
  assumes "header_layout N" and "low_address p" and "length bs \<le> 2000"
  shows "tcp_try_parse N (fake_packet_ctx p bs) =
    (if length bs < 34 then Inl (Throw XDP_ABORTED)
     else if 1500 < frame_tot_len bs \<or> length bs < 14 + frame_tot_len bs \<or>
       frame_ihl bs < 20 \<or> frame_tot_len bs < frame_ihl bs then Inl (Throw XDP_DROP)
     else if length bs < frame_tcp bs + 20 then Inl (Throw XDP_ABORTED)
     else if frame_doff bs < 20 \<or> frame_tot_len bs - frame_ihl bs < frame_doff bs
     then Inl (Throw XDP_DROP)
     else Inr (tcp_of_frame N bs))"
  by (rule tcp_try_parse_eq [OF assms(1) low_packet [OF assms(2,3)]])

lemma header_flags:
  assumes "header_layout N" and "length bs = 20"
  shows "is_fin (tcp_flags_from_header N bs) = is_fin (TcpFlags (bs ! 13))"
    and "is_syn (tcp_flags_from_header N bs) = is_syn (TcpFlags (bs ! 13))"
    and "is_rst (tcp_flags_from_header N bs) = is_rst (TcpFlags (bs ! 13))"
    and "is_psh (tcp_flags_from_header N bs) = is_psh (TcpFlags (bs ! 13))"
    and "is_ack (tcp_flags_from_header N bs) = is_ack (TcpFlags (bs ! 13))"
  using tcp_flags_from_both [OF assms] by (simp_all only: tcp_flags_from_u8_def)

lemmas tcp_test_defs = reads_ports_and_flags_def reports_payload_offset_and_len_def
  trailing_padding_is_not_payload_def header_found_after_ip_options_def bare_ack_has_empty_payload_def
  syn_flag_is_read_correctly_def too_short_is_rejected_def rejects_undersized_header_def
  tcp_tolerates_trailing_ethernet_padding_def rejects_options_length_only_satisfied_by_trailing_padding_def
  assert_rejected_def

lemma tcp_packet_tests_pass:
  assumes "header_layout N" and "low_address p"
  shows "reads_ports_and_flags N p" "reports_payload_offset_and_len N p" "trailing_padding_is_not_payload N p" "header_found_after_ip_options N p" "bare_ack_has_empty_payload N p" "syn_flag_is_read_correctly N p" "too_short_is_rejected N p" "rejects_undersized_header N p" "tcp_tolerates_trailing_ethernet_padding N p"
  by (simp_all add: tcp_test_defs tcp_try_parse_low [OF assms] tcp_of_frame_def frame_values
      header_flags [OF assms(1)] flag_bits Let_def)

lemma options_test_passes:
  assumes "header_layout N" and "low_address p" and "low_address q"
  shows "rejects_options_length_only_satisfied_by_trailing_padding N p q"
  by (simp add: tcp_test_defs tcp_try_parse_low [OF assms(1)] assms(2,3) frame_values Let_def)

section \<open>The suite\<close>

definition header_suite :: "network_types \<Rightarrow> usize \<Rightarrow> usize \<Rightarrow> bool" where
  "header_suite N p q \<longleftrightarrow>
   accepts_ipv4_ethertype N p \<and>
   passes_through_non_ipv4_ethertype N p \<and>
   too_short_is_aborted N p \<and>
   exact_minimum_length_succeeds N p \<and>
   one_byte_over_minimum_succeeds N p \<and>
   succeeds_and_reads_addr_port_len N p \<and>
   ipv4_tolerates_trailing_ethernet_padding N p \<and>
   reads_ports_after_ip_options N p \<and>
   allows_dont_fragment_flag N p \<and>
   rejects_ihl_below_minimum N p \<and>
   rejects_first_fragment N p \<and>
   rejects_later_fragment N p \<and>
   packet_rejects_non_v4_version N p \<and>
   packet_rejects_total_length_greater_than_packet_len N p \<and>
   rejects_total_length_smaller_than_ip_header N p \<and>
   passes_non_tcp_protocol N p \<and>
   reads_ports_and_flags N p \<and>
   reports_payload_offset_and_len N p \<and>
   trailing_padding_is_not_payload N p \<and>
   header_found_after_ip_options N p \<and>
   bare_ack_has_empty_payload N p \<and>
   syn_flag_is_read_correctly N p \<and>
   too_short_is_rejected N p \<and>
   rejects_undersized_header N p \<and>
   tcp_tolerates_trailing_ethernet_padding N p \<and>
   rejects_options_length_only_satisfied_by_trailing_padding N p q"

lemma header_tests_pass:
  assumes "header_layout N" and "knows_udp N" and "low_address p" and "low_address q"
  shows "header_suite N p q"
  using udp_test_passes [OF assms(1,3,2)] options_test_passes [OF assms(1,3,4)]
  by (simp add: header_suite_def check_header_tests_pass [OF assms(1,3)] ipv4_accept_tests_pass [OF assms(1,3)]
      ipv4_reject_tests_pass [OF assms(1,3)] tcp_packet_tests_pass [OF assms(1,3)])

end
