(* ===== verification/Minecraft_Tests.thy ===== *)
theory Minecraft_Tests
  imports Packet_Filter Header_Tests
begin

text \<open>
  The unit tests of the handshake check, \<open>ebpf/minecraft.rs\<close>. \<open>check_frame\<close> runs the check as the
  XDP program does, on a \<open>FakePacket\<close> whose address is a parameter; its result is \<open>None\<close> where
  the helper panics. The tests' payloads and builder are in \<open>Fixtures\<close>.
\<close>

section \<open>The tests\<close>

definition check_frame :: "network_types \<Rightarrow> usize \<Rightarrow> bytes \<Rightarrow> (unit, xdp_action) outcome option" where
  "check_frame N p frame =
     (let ctx = fake_packet_ctx p frame in
      case tcp_try_parse N ctx of
        Inl _ \<Rightarrow> None
      | Inr tcp \<Rightarrow> Some (check_handshake ctx (tp_payload_offset tcp) (tp_payload_len tcp)))"

definition check :: "network_types \<Rightarrow> usize \<Rightarrow> bytes \<Rightarrow> (unit, xdp_action) outcome option" where
  "check N p payload = check_frame N p (tcp_frame payload)"

definition DROP :: "(unit, xdp_action) outcome option" where
  "DROP = Some (Inl (Throw XDP_DROP))"

definition on_wire :: "bytes option \<Rightarrow> (bytes \<Rightarrow> bool) \<Rightarrow> bool" where
  \<comment> \<open>a test that calls the builder fails where the builder panics\<close>
  "on_wire w test = (case w of None \<Rightarrow> False | Some payload \<Rightarrow> test payload)"

definition accepts_login_handshake :: "network_types \<Rightarrow> usize \<Rightarrow> bool" where
  "accepts_login_handshake N p \<longleftrightarrow> check N p localhost_login_wire = Some (Inr ())"

definition accepts_status_handshake :: "network_types \<Rightarrow> usize \<Rightarrow> bool" where
  "accepts_status_handshake N p \<longleftrightarrow> check N p domain_status_wire = Some (Inr ())"

definition accepts_transfer_next_state :: "network_types \<Rightarrow> usize \<Rightarrow> bool" where
  "accepts_transfer_next_state N p \<longleftrightarrow>
     on_wire (handshake_wire (ascii ''localhost'') 3) (\<lambda>w. check N p w = Some (Inr ()))"

definition accepts_trailing_login_start_in_same_segment :: "network_types \<Rightarrow> usize \<Rightarrow> bool" where
  "accepts_trailing_login_start_in_same_segment N p \<longleftrightarrow>
     (let payload = localhost_login_wire; payload = payload @ [0x07, 0x00, 0x05] @ ascii ''Steve''
      in check N p payload = Some (Inr ()))"

definition accepts_max_length_address :: "network_types \<Rightarrow> usize \<Rightarrow> bool" where
  "accepts_max_length_address N p \<longleftrightarrow>
     (let address = replicate (unat MAX_SERVER_ADDRESS_BYTES) 0x61
      in on_wire (handshake_wire address 2) (\<lambda>w. check N p w = Some (Inr ())))"

definition rejects_address_one_byte_too_long :: "network_types \<Rightarrow> usize \<Rightarrow> bool" where
  "rejects_address_one_byte_too_long N p \<longleftrightarrow>
     (let address = replicate (unat MAX_SERVER_ADDRESS_BYTES + 1) 0x61
      in on_wire (handshake_wire address 2) (\<lambda>w. check N p w = DROP))"

definition rejects_http :: "network_types \<Rightarrow> usize \<Rightarrow> bool" where
  "rejects_http N p \<longleftrightarrow> check N p (ascii (''GET / HTTP/1.1'' @ [CHR 0x0D, CHR 0x0A])) = DROP"

definition rejects_wrong_packet_id :: "network_types \<Rightarrow> usize \<Rightarrow> bool" where
  "rejects_wrong_packet_id N p \<longleftrightarrow>
     (let payload = localhost_login_wire; payload = payload[1 := 0x01] in check N p payload = DROP)"

definition rejects_invalid_next_state :: "network_types \<Rightarrow> usize \<Rightarrow> bool" where
  "rejects_invalid_next_state N p \<longleftrightarrow>
     on_wire (handshake_wire (ascii ''localhost'') 0) (\<lambda>w. check N p w = DROP) \<and>
     on_wire (handshake_wire (ascii ''localhost'') 4) (\<lambda>w. check N p w = DROP)"

definition rejects_zero_frame_length :: "network_types \<Rightarrow> usize \<Rightarrow> bool" where
  "rejects_zero_frame_length N p \<longleftrightarrow> check N p [0x00, 0x00] = DROP"

definition rejects_frame_longer_than_payload :: "network_types \<Rightarrow> usize \<Rightarrow> bool" where
  "rejects_frame_longer_than_payload N p \<longleftrightarrow>
     (let payload = localhost_login_wire in check N p (take (length payload - 1) payload) = DROP)"

definition rejects_frame_length_disagreeing_with_fields :: "network_types \<Rightarrow> usize \<Rightarrow> bool" where
  "rejects_frame_length_disagreeing_with_fields N p \<longleftrightarrow>
     (let payload = localhost_login_wire; payload = payload[0 := payload ! 0 + 1]; payload = payload @ [0x00]
      in check N p payload = DROP)"

definition rejects_frame_length_shorter_than_fields :: "network_types \<Rightarrow> usize \<Rightarrow> bool" where
  "rejects_frame_length_shorter_than_fields N p \<longleftrightarrow>
     (let payload = localhost_login_wire; payload = payload[0 := payload ! 0 - 1] in check N p payload = DROP)"

definition rejects_oversized_frame_length :: "network_types \<Rightarrow> usize \<Rightarrow> bool" where
  "rejects_oversized_frame_length N p \<longleftrightarrow>
     (let payload = [0xFF, 0x7F]; payload = payload @ drop 1 localhost_login_wire in check N p payload = DROP)"

definition rejects_overlong_varint :: "network_types \<Rightarrow> usize \<Rightarrow> bool" where
  "rejects_overlong_varint N p \<longleftrightarrow>
     (let payload = [0x0F, 0x00, 0x80, 0x80, 0x80, 0x80, 0x80, 0x80];
          payload = payload @ [0x00, 0x63, 0xDD, 0x02, 0, 0, 0, 0]
      in check N p payload = DROP)"

definition rejects_negative_address_length :: "network_types \<Rightarrow> usize \<Rightarrow> bool" where
  "rejects_negative_address_length N p \<longleftrightarrow>
     (let payload = [0x0B, 0x00, 0x81, 0x06, 0xFF, 0xFF, 0xFF, 0xFF, 0x0F, 0x63, 0xDD, 0x02]
      in check N p payload = DROP)"

definition rejects_empty_payload :: "network_types \<Rightarrow> usize \<Rightarrow> bool" where
  "rejects_empty_payload N p \<longleftrightarrow> check N p [] = DROP"

definition padding_never_completes_a_truncated_frame :: "network_types \<Rightarrow> usize \<Rightarrow> bool" where
  "padding_never_completes_a_truncated_frame N p \<longleftrightarrow>
     (let payload = localhost_login_wire; frame = tcp_frame (take (length payload - 1) payload);
          frame = frame @ [0x02]
      in check_frame N p frame = DROP)"

section \<open>What the helpers compute\<close>

lemma padded_frame_fields:
  assumes "length payload \<le> 1460"
  shows "frame_ihl (tcp_frame payload @ pad) = 20" and "frame_tcp (tcp_frame payload @ pad) = 34"
    and "frame_doff (tcp_frame payload @ pad) = 20"
    and "frame_tot_len (tcp_frame payload @ pad) = 40 + length payload"
    and "take (length payload) (drop 54 (tcp_frame payload @ pad)) = payload"
proof -
  note f = tcp_frame_fields [OF assms]
  show "frame_ihl (tcp_frame payload @ pad) = 20"
    using f(2) by (simp add: frame_ihl_def nth_append f(1))
  then show t: "frame_tcp (tcp_frame payload @ pad) = 34" by (simp add: frame_tcp_def)
  show "frame_doff (tcp_frame payload @ pad) = 20"
    using f(3,4) by (simp add: frame_doff_def t nth_append f(1))
  show "frame_tot_len (tcp_frame payload @ pad) = 40 + length payload"
    using f(6) by (simp add: frame_tot_len_def nth_append f(1))
  show "take (length payload) (drop 54 (tcp_frame payload @ pad)) = payload"
    by (simp add: f(1,8))
qed

lemma check_frame_eq:
  assumes N: "header_layout N" and p: "low_address p" and len: "length payload \<le> 1460" "length pad \<le> 100"
  shows "check_frame N p (tcp_frame payload @ pad) =
    Some (if is_handshake payload then Inr () else Inl (Throw XDP_DROP))"
proof -
  let ?f = "tcp_frame payload @ pad"
  note f = padded_frame_fields [OF len(1), of pad] and n = tcp_frame_fields(1) [OF len(1)]
  have ctx: "packet_ctx (fake_packet_ctx p ?f) ?f"
    using len n by (intro low_packet [OF p]) simp
  have acc: "tcp_acceptable ?f" using len by (simp add: tcp_acceptable_def f n)
  have "tp_payload_offset (tcp_of_frame N ?f) = 54" "tp_payload_len (tcp_of_frame N ?f) = length payload"
    by (simp_all add: tcp_of_frame_def f Let_def)
  with acc check_handshake_eq [OF ctx, of 54 "length payload"] f(5) n show ?thesis
    by (simp add: check_frame_def tcp_try_parse_eq [OF N ctx] tcp_acceptable_def f)
qed

lemma check_eq:
  assumes "header_layout N" and "low_address p" and "length payload \<le> 1460"
  shows "check N p payload = Some (if is_handshake payload then Inr () else Inl (Throw XDP_DROP))"
  using check_frame_eq [OF assms, of "[]"] by (simp add: check_def)

section \<open>They pass\<close>

text \<open>The wire format is decided by running the check on the payload alone.\<close>

lemma is_handshake_run:
  assumes "length payload \<le> 1460"
  shows "is_handshake payload \<longleftrightarrow> check_handshake (fake_packet_ctx 4096 payload) 0 (length payload) = Inr ()"
proof -
  have "packet_ctx (fake_packet_ctx 4096 payload) payload"
    using assms by (intro low_packet) (simp_all add: low_address_def)
  from check_handshake_eq [OF this, of 0 "length payload"] show ?thesis by simp
qed

lemma read_run:
  assumes "length payload \<le> 1460" and "off \<le> 1000"
  shows "read_varint_ctx (fake_packet_ctx 4096 payload) off = (case varint_prefix 5 (drop off payload) of
       Some vs \<Rightarrow> Inr (varint_value vs, length vs)
     | None \<Rightarrow> Inl (Throw XDP_DROP))"
  using assms by (intro read_varint_ctx_eq low_packet) (simp_all add: low_address_def headroom_def)

lemma byte_run:
  assumes "length payload \<le> 1460" and "off \<le> 1000"
  shows "byte_at (fake_packet_ctx 4096 payload) off =
    (if off < length payload then Inr (payload ! off) else Inl (Throw XDP_DROP))"
  using assms by (intro byte_at_eq low_packet) (simp_all add: low_address_def headroom_def)

lemmas run_check = is_handshake_run read_run byte_run check_handshake_def usize_add_def continued_def segment_def
  MAX_HANDSHAKE_LEN_def MAX_SERVER_ADDRESS_BYTES_def ADDRESS_LEN_MASK_def localhost_login_wire_def ascii_def Let_def

lemma localhost_wire_first: "localhost_login_wire ! 0 = 0x10"
  by (simp add: localhost_login_wire_def)

lemma not_handshakes:
  "\<not> is_handshake (ascii (''GET / HTTP/1.1'' @ [CHR 0x0D, CHR 0x0A]))"
  "\<not> is_handshake (localhost_login_wire[1 := 0x01])"
  "\<not> is_handshake [0x00, 0x00]"
  "\<not> is_handshake (take 16 localhost_login_wire)"
  "\<not> is_handshake (localhost_login_wire[0 := 0x11] @ [0x00])"
  "\<not> is_handshake (localhost_login_wire[0 := 0x0F])"
  "\<not> is_handshake ([0xFF, 0x7F] @ drop 1 localhost_login_wire)"
  "\<not> is_handshake ([0x0F, 0x00, 0x80, 0x80, 0x80, 0x80, 0x80, 0x80] @ [0x00, 0x63, 0xDD, 0x02, 0, 0, 0, 0])"
  "\<not> is_handshake [0x0B, 0x00, 0x81, 0x06, 0xFF, 0xFF, 0xFF, 0xFF, 0x0F, 0x63, 0xDD, 0x02]"
  by (simp_all add: run_check)

lemma handshake_wire_small:
  assumes "length address \<le> 1400"
  shows "\<exists>w. handshake_wire address ns = Some w \<and> length w \<le> 1460"
proof -
  let ?n = "length (address_len_bytes (length address))"
  have n: "?n \<le> 3"
    unfolding address_len_bytes_eq using assms by (intro varint_encode_length) simp_all
  let ?len = "length ([0x00, 0x81, 0x06] @ address_len_bytes (length address) @ address @ [0x63, 0xDD, ns])"
  have len: "?len \<le> 1409" using n assms by simp
  have body: "\<not> 2 ^ 32 \<le> length address" "\<not> 2 ^ 16 \<le> ?len" using len assms by simp_all
  have "?len div 2 ^ 7 < 2 ^ 8"
    by (rule less_mult_imp_div_less) (use len in simp)
  then have hi: "\<not> 2 ^ 8 \<le> ?len div 2 ^ 7" by linarith
  show ?thesis
  proof (cases "?len < 0x80")
    case True
    then show ?thesis
      unfolding handshake_wire_def Let_def if_not_P [OF body(1)] if_not_P [OF body(2)] if_P [OF True]
      using len by simp
  next
    case False
    show ?thesis
      unfolding handshake_wire_def Let_def if_not_P [OF body(1)] if_not_P [OF body(2)] if_not_P [OF False] if_not_P [OF hi]
      using len by simp
  qed
qed

lemma wire_check:
  assumes "header_layout N" and "low_address p" and "length address \<le> 1400"
  shows "on_wire (handshake_wire address ns) (\<lambda>w. check N p w =
    Some (if length address \<le> 765 \<and> ns \<in> {1, 2, 3} then Inr () else Inl (Throw XDP_DROP)))"
proof -
  obtain w where w: "handshake_wire address ns = Some w" "length w \<le> 1460"
    using handshake_wire_small [OF assms(3), of ns] by blast
  have "is_handshake w \<longleftrightarrow> length address \<le> 765 \<and> ns \<in> {1, 2, 3}"
    using starts_with_handshake_wire [OF w(1), of "[]"] by simp
  with check_eq [OF assms(1,2) w(2)] show ?thesis by (simp add: on_wire_def w(1))
qed

lemma wire_tests_pass:
  assumes "header_layout N" and "low_address p"
  shows "accepts_transfer_next_state N p"
    "accepts_max_length_address N p"
    "rejects_address_one_byte_too_long N p"
    "rejects_invalid_next_state N p"
  using wire_check [OF assms, of "ascii ''localhost''" 3]
    wire_check [OF assms, of "replicate 765 0x61" 2] wire_check [OF assms, of "replicate 766 0x61" 2]
    wire_check [OF assms, of "ascii ''localhost''" 0] wire_check [OF assms, of "ascii ''localhost''" 4]
  by (simp_all add: accepts_transfer_next_state_def accepts_max_length_address_def
      rejects_address_one_byte_too_long_def rejects_invalid_next_state_def DROP_def ascii_def
      MAX_SERVER_ADDRESS_BYTES_def)

lemma domain_is_handshake: "is_handshake domain_status_wire"
  using starts_with_handshake_wire [OF domain_wire, of "[]"] by simp

lemma accept_tests_pass:
  assumes "header_layout N" and "low_address p"
  shows "accepts_login_handshake N p"
    "accepts_status_handshake N p"
    "accepts_trailing_login_start_in_same_segment N p"
  using localhost_wire_accepted [of "[]"] localhost_wire_accepted [of "[0x07, 0x00, 0x05] @ ascii ''Steve''"]
    domain_is_handshake
  by (simp_all add: accepts_login_handshake_def accepts_status_handshake_def
      accepts_trailing_login_start_in_same_segment_def check_eq [OF assms] localhost_wire_length
      domain_status_wire_def ascii_def)

lemma reject_tests_pass:
  assumes "header_layout N" and "low_address p"
  shows "rejects_http N p"
    "rejects_wrong_packet_id N p"
    "rejects_zero_frame_length N p"
    "rejects_frame_longer_than_payload N p"
    "rejects_frame_length_disagreeing_with_fields N p"
    "rejects_frame_length_shorter_than_fields N p"
    "rejects_oversized_frame_length N p"
    "rejects_overlong_varint N p"
    "rejects_negative_address_length N p"
    "rejects_empty_payload N p"
    "padding_never_completes_a_truncated_frame N p"
proof -
  show "padding_never_completes_a_truncated_frame N p"
    using check_frame_eq [OF assms, of "take 16 localhost_login_wire" "[0x02]"] not_handshakes(4)
    by (simp add: padding_never_completes_a_truncated_frame_def DROP_def localhost_wire_length)
qed (use not_handshakes in \<open>simp_all add: rejects_http_def rejects_wrong_packet_id_def rejects_zero_frame_length_def
      rejects_frame_longer_than_payload_def rejects_frame_length_disagreeing_with_fields_def
      rejects_frame_length_shorter_than_fields_def rejects_oversized_frame_length_def rejects_overlong_varint_def
      rejects_negative_address_length_def rejects_empty_payload_def check_eq [OF assms] DROP_def
      localhost_wire_length localhost_wire_first ascii_def\<close>)

section \<open>The suite\<close>

definition minecraft_suite :: "network_types \<Rightarrow> usize \<Rightarrow> bool" where
  "minecraft_suite N p \<longleftrightarrow>
   accepts_login_handshake N p \<and>
   accepts_status_handshake N p \<and>
   accepts_transfer_next_state N p \<and>
   accepts_trailing_login_start_in_same_segment N p \<and>
   accepts_max_length_address N p \<and>
   rejects_address_one_byte_too_long N p \<and>
   rejects_http N p \<and>
   rejects_wrong_packet_id N p \<and>
   rejects_invalid_next_state N p \<and>
   rejects_zero_frame_length N p \<and>
   rejects_frame_longer_than_payload N p \<and>
   rejects_frame_length_disagreeing_with_fields N p \<and>
   rejects_frame_length_shorter_than_fields N p \<and>
   rejects_oversized_frame_length N p \<and>
   rejects_overlong_varint N p \<and>
   rejects_negative_address_length N p \<and>
   rejects_empty_payload N p \<and>
   padding_never_completes_a_truncated_frame N p"

lemma minecraft_tests_pass:
  assumes "header_layout N" and "low_address p"
  shows "minecraft_suite N p"
  by (simp add: minecraft_suite_def wire_tests_pass [OF assms] accept_tests_pass [OF assms] reject_tests_pass [OF assms])

end
