(* ===== verification/Spec2Isabelle.thy ===== *)
theory Spec2Isabelle
  imports Linear_Runs Fair_Runs Equivalence Reports Loader Flow_Order Fake_Packet Packaging
    Parser_Tests Net_Tests Minecraft_Tests
begin

text \<open>
  Verification library for the packet filter of nylium-ward, the Rust workspace \<open>src/sniffer\<close>.

  THE PROGRAM. An XDP program guards the Minecraft port of a server: the kernel runs it on each
  incoming frame and obeys the action it returns. \<open>verdict\<close> (\<open>mc-sniffer-ebpf/src/main.rs\<close>)
  checks the Ethernet, IPv4 and TCP headers (\<open>mc-sniffer-common/src/ebpf/networking\<close>), passes
  what is not TCP to port 25565, and lets data through only on connections that have shown a
  Minecraft handshake (\<open>ebpf/minecraft.rs\<close>). It remembers those connections by 4-tuple in a
  kernel map, \<open>ALLOWED_FLOWS\<close>. A second implementation of the same parsers works on slices
  (\<open>networking/net.rs\<close>, \<open>networking/parser.rs\<close>); the unit tests and the comments treat it as
  the reference for the first.

  HOW CODE IS MODELLED. Functions are HOL functions of the same name where that is free. A
  result is an \<open>outcome\<close> (theory \<open>Sniffer_Prelude\<close>): a value, an early return \<open>Throw e\<close>, an
  \<open>Overflow\<close> of \<open>usize\<close> or \<open>u8\<close> arithmetic, or a \<open>BadRead\<close> of memory outside the
  packet. Words keep their width; \<open>usize\<close> is a natural number whose 64-bit bound every
  addition and subtraction checks. Packet memory is a partial map from addresses to bytes.
  Loops have at most five turns and are structural recursions, so no definition needs fuel.

  THEORIES, in dependency order.
  \<open>Sniffer_Prelude\<close>: machine types, outcomes, checked arithmetic, big-endian integers, slices.
  \<open>Rust_Macros\<close>: \<open>checked_slice!\<close> and \<open>try_slice_into!\<close> of \<open>macros.rs\<close>.
  \<open>Varint\<close>, \<open>Handshake_Format\<close>, \<open>Utf8\<close>: the wire formats, independent of the code. \<open>varint\<close>,
  \<open>handshake_body\<close> and \<open>starts_with_handshake\<close> are the specifications the parsers are proved
  against, and they are shown unambiguous. The locale \<open>varint_reader\<close> is the contract of a
  VarInt reader; both readers of the code interpret it.
  \<open>Network_Types\<close>: the external crate \<open>network-types\<close> as a parameter \<open>N\<close>, with the header
  layouts of the RFCs as the hypothesis \<open>header_layout\<close> (locale \<open>net_headers\<close>, interpreted by
  \<open>rfc_headers\<close>).
  \<open>Fixtures\<close>: the frames, payloads and builders of the repository's tests.
  \<open>Net\<close>, \<open>Parser\<close>: the slice parsers, each characterised on every branch.
  \<open>Ebpf_Context\<close>: \<open>XdpContext\<close>, \<open>ptr_at\<close>, \<open>extract!\<close> and the actions. \<open>packet_ctx ctx bs\<close> is
  what the kernel promises: the context's memory holds the bytes \<open>bs\<close>, not at address 0 and
  not in the last page (4096 bytes) of the address space; no access of the program starts
  further than 4096 bytes from the packet's start. The locale \<open>packet_access\<close> is the contract of
  \<open>EbpfContext::index\<close>.
  \<open>Ebpf_Headers\<close>, \<open>Minecraft\<close>: the XDP program's parsers, reduced to conditions on the bytes.
  \<open>Flow_Table\<close>: \<open>ALLOWED_FLOWS\<close> as a parameter. \<open>lru_laws\<close> is the documented behaviour of an LRU
  map, which may evict on insertion; \<open>lru_room ops keys n\<close> says that it evicts none while it has at
  most \<open>n\<close> entries. The locales \<open>flow_table\<close> and \<open>roomy_flow_table\<close> are interpreted by a list of
  at most 1024 entries in order of use, with \<open>n\<close> = 1024. \<open>Flow_Order\<close> makes flow keys an instance
  of the library's order classes and interprets both contracts by a balanced tree.
  \<open>Verdict\<close>: \<open>verdict\<close> with its log lines, the abstract filter \<open>filter_step\<close> on a set of flows,
  and the refinement between them.
  \<open>Packet_Filter\<close>: runs over packet sequences, reachable states, and \<open>opened\<close>, which reads
  from the history alone whether a flow is open; \<open>roomy\<close> reads from it whether the table had room.
  \<open>Reports\<close>: what the program returns and logs: well-formed header structs, and the log line by
  line.
  \<open>Calls\<close>: \<open>verdict\<close> cut at its calls on the map, with nothing left out; taken one after another
  its steps are \<open>verdict\<close>. \<open>Machine\<close>: any number of CPUs taking such steps on one table, in any
  order, on packets in memory. \<open>Tasks\<close>, \<open>Concurrent\<close>, \<open>Serial_Flows\<close>: the same with a packet known
  only by the segment it carries, where the invariants are proved, for every interleaving and
  for packets of a flow handled one at a time. \<open>Machine_Safety\<close>: the machine refines that system
  in both directions, and the guarantees this gives it. \<open>Linear_Runs\<close>: one packet of a flow at a
  time and with room in the table (\<open>roomy_on\<close>), many CPUs are as good as one, and flows do not
  interfere. \<open>Fair_Runs\<close>: runs without end, driven by a schedule, with faults as values.
  \<open>Equivalence\<close>: the slice parsers against the packet-memory parsers.
  \<open>Loader\<close>: the userspace program \<open>mc-sniffer/src/main.rs\<close>, as a function of what the calls it
  makes return.
  \<open>Fake_Packet\<close>: \<open>FakePacket\<close> of \<open>test_support.rs\<close> on mapped memory; \<open>mmap\<close> and \<open>munmap\<close> are a
  parameter with their documented laws (locale \<open>page_mapper\<close>, interpreted by a mapper with one
  place). \<open>Packaging\<close>: the two build scripts, the licence string and the panic handler.
  \<open>Unit_Tests\<close>, \<open>Parser_Tests\<close>, \<open>Net_Tests\<close>, \<open>Header_Tests\<close>, \<open>Minecraft_Tests\<close>: every unit test of
  the crate, translated; a test is true when its function returns.
  This theory: the properties of whole runs and of the two implementations together, and the test
  suites.

  WHAT THE THEOREMS SHOW. For every packet and every sequence of packets the program ends with
  an action, overflows nothing and reads nothing outside the packet. Data to port 25565 passes
  only on a connection that has shown a well-formed handshake since its last SYN, and not after
  a FIN or RST; while the table has room, exactly then, and what happens to a flow depends on its
  own packets alone. On many CPUs, whatever the order of their calls on the table, no CPU faults
  or gets stuck under any schedule, no data passes on a flow that never carried a handshake, and
  every packet gets its action within four more turns of its CPU. Where the table has room and
  each flow is handled one packet at a time, the run is the sequential run in the order of arrival,
  flow by flow; where a flow's packets overlap, a handshake of an old connection can let in the
  next one. \<open>check_handshake\<close> decides the wire format, with its two size limits, which are all that
  sets it apart from \<open>parse_handshake\<close> on a handshake that parses. The slice parsers accept exactly
  the formats, round-trip and never panic, and agree with the packet-memory parsers but for the
  differences the properties name. The loader prints nothing before the program is attached and ends well only when asked to. All unit
  tests pass on the model. Two properties show behaviour the repository does not intend:
  \<open>parse_ipv4\<close> accepts an IHL under 5, and a handshake sent after dropped data opens its
  connection.

  BOUNDS. The room of the table is a parameter \<open>n\<close> of the properties that need it: 1024 entries are
  declared, but the kernel may evict earlier, as the comment on \<open>ALLOWED_FLOWS\<close> says. \<open>drive\<close> counts
  the steps of one run: four are enough on every input (lemma \<open>verdict_by_calls_eq\<close> of theory
  \<open>Calls\<close>). No other definition takes fuel. A CPU has at most four map calls left, so four of its
  steps finish a packet. Concrete witnesses run on packets at address 4096; the test suites hold
  at every address from 1 to 2 GiB.

  NOT MODELLED. The module files (declarations and lint attributes), the generic traits apart
  from their one implementation, the deployment files, and the kernel: the eBPF verifier, the
  system calls behind the loader and the test packets, and the levels and text layout of log
  lines. A call on the map is one atomic step, as the kernel documents; what happens inside it is a
  parameter, and a packet's memory is its CPU's own while the program runs. \<open>println!\<close> and
  \<open>env_logger::init\<close> are taken not to panic, and two signals at once are the one that
  \<open>select!\<close> takes. The panic handler is a loop, and no run of \<open>verdict\<close> reaches it.
\<close>

section \<open>The filter over whole runs\<close>

text \<open>
  C10: a run over any packets, from any table, never faults and gives every packet one action.
\<close>

theorem runs_never_fault:
  assumes "header_layout N" and "lru_laws ops keys" and "list_all2 packet_ctx ctxs bss"
  shows "\<exists>as m'. verdicts N ops ctxs m = Inr (as, m') \<and> length as = length ctxs"
  by (rule verdicts_total [OF assms])

theorem runs_never_fault_witness:
  "\<exists>as m'. verdicts rfc_headers lru_list [fake_packet_ctx 1 [], fake_packet_ctx 1 [0]] [] = Inr (as, m') \<and>
     length as = 2"
proof -
  have "list_all2 packet_ctx [fake_packet_ctx 1 [], fake_packet_ctx 1 [0]] [[], [0]]"
    using fake_packet_ctx [of 1 "[]"] fake_packet_ctx [of 1 "[0]"] by (simp add: headroom_def)
  from runs_never_fault [OF rfc_headers_layout lru.laws this, of "[]"] show ?thesis
    by (simp add: numeral_2_eq_2)
qed

text \<open>
  C1: safety. In every run from an empty table, whatever the map evicts, a data segment to port
  25565 is passed only if it starts with a handshake itself, or an earlier segment of its
  4-tuple did and no SYN, FIN or RST of that 4-tuple came since.
\<close>

theorem passed_data_was_opened:
  assumes "header_layout N" and "lru_laws ops keys" and "keys m0 = {}"
    and "list_all2 packet_ctx ctxs bss" and "packet_ctx ctx bs"
    and "verdicts N ops (ctxs @ ctx # ctxs') m0 = Inr (as @ XDP_PASS # as', m)" and "length as = length ctxs"
    and "classify N bs = Inr s" and "sg_payload s \<noteq> []"
  shows "is_handshake (sg_payload s) \<or> \<not> sg_syn s \<and> opened (sg_flow s) (rev (segments N bss))"
proof -
  from run_position [OF assms(1,2) _ assms(4,5,3,8,6,7), of False] obtain S S' where
    r: "reachable False (rev (segments N bss)) S" and st: "filter_step False S s XDP_PASS S'" by blast
  from filter_step_action [OF st] assms(9) have "is_handshake (sg_payload s) \<or> sg_flow s \<in> after_syn s S"
    by (auto split: if_splits)
  with reachable_opened [OF r] show ?thesis by (auto simp: after_syn_def split: if_splits)
qed

theorem passed_data_was_opened_witness:
  "opened test_flow (rev (segments rfc_headers [tcp_frame [1, 0], tcp_frame localhost_login_wire]))"
proof -
  from test_run obtain m' where
    "verdicts rfc_headers lru_list ([test_ctx [1, 0], test_ctx localhost_login_wire] @ test_ctx [1, 0] # []) []
      = Inr ([XDP_DROP, XDP_PASS] @ XDP_PASS # [], m')" by auto
  from passed_data_was_opened [OF rfc_headers_layout lru.laws _ _ _ this _
      classify_tcp_frame [OF rfc_headers_layout, of "[1, 0]"],
      of "[tcp_frame [1, 0], tcp_frame localhost_login_wire]"]
  show ?thesis by (simp add: tcp_frame_ctx localhost_wire_length)
qed

text \<open>
  C2: with room in the table the filter is exact. Let the table hold \<open>n\<close> entries without evicting,
  and let at each handshake of the history the open flows, with its own, be at most \<open>n\<close>. Then the
  action of the next segment is a function of that history, whatever the table's state: data is
  passed if and only if it starts with a handshake or its 4-tuple is open. A client that has shown
  its handshake is never cut off.
\<close>

theorem filter_exact_with_room:
  assumes "header_layout N" and "lru_laws ops keys" and "lru_room ops keys n" and "keys m0 = {}"
    and "list_all2 packet_ctx ctxs bss" and "packet_ctx ctx bs"
    and "verdicts N ops (ctxs @ ctx # ctxs') m0 = Inr (as @ a # as', m)" and "length as = length ctxs"
    and "classify N bs = Inr s" and "roomy n (rev (segments N bss))"
  shows "a = (if sg_payload s = [] \<or> is_handshake (sg_payload s) \<or>
      \<not> sg_syn s \<and> opened (sg_flow s) (rev (segments N bss)) then XDP_PASS else XDP_DROP)"
proof -
  have "True \<Longrightarrow> lru_room ops keys n \<and> roomy n (rev (segments N bss))" using assms(3,10) by simp
  from run_position [OF assms(1,2) this assms(5,6,4,9,7,8)] obtain S S' where
    r: "reachable True (rev (segments N bss)) S" and st: "filter_step False S s a S'" by blast
  show ?thesis
    using filter_step_action [OF st] reachable_exact [OF r, of "sg_flow s"] by (auto simp: after_syn_def)
qed

theorem filter_exact_with_room_witness:
  "XDP_PASS = (if [1, 0] = ([] :: bytes) \<or> is_handshake [1, 0] \<or>
      \<not> False \<and> opened test_flow (rev (segments rfc_headers [tcp_frame [1, 0], tcp_frame localhost_login_wire]))
    then XDP_PASS else XDP_DROP)"
proof -
  from test_run obtain m' where v:
    "verdicts rfc_headers lru_list ([test_ctx [1, 0], test_ctx localhost_login_wire] @ test_ctx [1, 0] # []) []
      = Inr ([XDP_DROP, XDP_PASS] @ XDP_PASS # [], m')" by auto
  have room: "roomy max_entries (rev (segments rfc_headers [tcp_frame [1, 0], tcp_frame localhost_login_wire]))"
    by (simp add: test_segments fits_def open_flows_def max_entries_def)
  from filter_exact_with_room [OF rfc_headers_layout lru.laws lru.room _ _ _ v _
      classify_tcp_frame [OF rfc_headers_layout] room, of "[1, 0]"]
  show ?thesis by (simp add: tcp_frame_ctx localhost_wire_length)
qed

text \<open>
  C8: a flow stays open until its own SYN, FIN or RST, or until another flow's handshake takes
  its slot: no other packet can close it.
\<close>

theorem flow_closed_only_by:
  assumes "header_layout N" and "packet_ctx ctx bs" and "lru_laws ops keys"
    and "verdict N ops ctx m = Inr (a, logs, m')" and "f \<in> keys m" and "f \<notin> keys m'"
  shows "\<exists>s. classify N bs = Inr s \<and>
    (sg_flow s = f \<and> (sg_syn s \<or> sg_teardown s) \<or>
     sg_flow s \<noteq> f \<and> is_handshake (sg_payload s) \<and> (sg_syn s \<or> sg_flow s \<notin> keys m))"
proof (cases "classify N bs")
  case (Inl a0)
  with verdict_unjudged [OF assms(1,2) Inl, of ops m] assms(4-6) show ?thesis by auto
next
  case (Inr s)
  from verdict_step [OF assms(1-3) _ Inr, where exact = False and m = m] assms(4) have
    "filter_step False (keys m) s a (keys m')" by auto
  from step_closes [OF this assms(5,6)] Inr show ?thesis
    by (auto simp: after_syn_def split: if_splits)
qed

theorem flow_closed_only_by_witness:
  "\<exists>s. classify rfc_headers fin_frame = Inr s \<and>
    (sg_flow s = test_flow \<and> (sg_syn s \<or> sg_teardown s) \<or>
     sg_flow s \<noteq> test_flow \<and> is_handshake (sg_payload s) \<and> (sg_syn s \<or> sg_flow s \<notin> {test_flow}))"
proof -
  from fin_frame_classify obtain payload where c: "classify rfc_headers fin_frame =
     Inr \<lparr>sg_flow = test_flow, sg_syn = False, sg_teardown = True, sg_payload = payload\<rparr>" ..
  from verdict_step [OF rfc_headers_layout fin_frame_ctx lru.laws _ c, where exact = False and m = "[test_flow]"]
  obtain a logs m' where v: "verdict rfc_headers lru_list (fake_packet_ctx 4096 fin_frame) [test_flow] = Inr (a, logs, m')"
    and st: "filter_step False (set [test_flow])
      \<lparr>sg_flow = test_flow, sg_syn = False, sg_teardown = True, sg_payload = payload\<rparr> a (set m')" by blast
  from st have "test_flow \<notin> set m'"
    by (rule filter_stepE) (auto simp: after_teardown_def)
  from flow_closed_only_by [OF rfc_headers_layout fin_frame_ctx lru.laws v _ this] show ?thesis by simp
qed

text \<open>
  C9: a flow that never shows a handshake never gets a byte through: in every run from an empty
  table each of its data segments is dropped.
\<close>

theorem unopened_data_dropped:
  assumes "header_layout N" and "lru_laws ops keys" and "keys m0 = {}"
    and "list_all2 packet_ctx ctxs bss" and "packet_ctx ctx bs"
    and "verdicts N ops (ctxs @ ctx # ctxs') m0 = Inr (as @ a # as', m)" and "length as = length ctxs"
    and "classify N bs = Inr s" and "sg_payload s \<noteq> []"
    and "\<forall>s' \<in> set (s # segments N bss). sg_flow s' = sg_flow s \<longrightarrow> \<not> is_handshake (sg_payload s')"
  shows "a = XDP_DROP"
proof -
  from run_position [OF assms(1,2) _ assms(4,5,3,8,6,7), of False] obtain S S' where
    r: "reachable False (rev (segments N bss)) S" and st: "filter_step False S s a S'" by blast
  have "sg_flow s \<notin> S"
    using reachable_opened [OF r] opened_handshake [of "sg_flow s" "rev (segments N bss)"] assms(10) by auto
  with filter_step_action [OF st] assms(9,10) show ?thesis by (simp add: after_syn_def)
qed

theorem unopened_data_dropped_witness:
  "\<exists>m'. verdicts rfc_headers lru_list ([test_ctx [1, 0]] @ test_ctx [1, 0] # []) [] =
     Inr ([XDP_DROP] @ XDP_DROP # [], m')"
proof -
  have c: "list_all2 packet_ctx [test_ctx [1, 0], test_ctx [1, 0]] [tcp_frame [1, 0], tcp_frame [1, 0]]"
    by (simp add: tcp_frame_ctx)
  from verdicts_total [OF rfc_headers_layout lru.laws c, of "[]"] obtain as m' where
    v: "verdicts rfc_headers lru_list [test_ctx [1, 0], test_ctx [1, 0]] [] = Inr (as, m')" and "length as = 2"
    by auto
  then obtain a b where as: "as = [a, b]" by (auto simp: length_Suc_conv numeral_2_eq_2)
  from v as have v1: "verdicts rfc_headers lru_list ([] @ test_ctx [1, 0] # [test_ctx [1, 0]]) [] = Inr ([] @ a # [b], m')"
    and v2: "verdicts rfc_headers lru_list ([test_ctx [1, 0]] @ test_ctx [1, 0] # []) [] = Inr ([a] @ b # [], m')"
    by simp_all
  note u = unopened_data_dropped [OF rfc_headers_layout lru.laws _ _ _ _ _
      classify_tcp_frame [OF rfc_headers_layout, of "[1, 0]"]]
  have "a = XDP_DROP" by (rule u [OF _ _ _ v1, of "[]"]) (simp_all add: tcp_frame_ctx segments_def)
  moreover have "b = XDP_DROP"
    by (rule u [OF _ _ _ v2, of "[tcp_frame [1, 0]]"])
       (simp_all add: tcp_frame_ctx segments_def classify_tcp_frame [OF rfc_headers_layout])
  ultimately show ?thesis using v as by simp
qed



section \<open>The two implementations of the parsers\<close>

text \<open>
  The two VarInt readers agree: on the same bytes the packet-memory reader returns the
  value and length the slice reader returns, and drops wherever it returns an error.
\<close>

theorem varint_parsers_agree:
  assumes "packet_ctx ctx bs" and "off + 6 < headroom"
  shows "read_varint_ctx ctx off = map_err (read_varint (drop off bs)) XDP_DROP"
  by (rule varint_readers_agree [OF assms])

theorem varint_parsers_agree_witness:
  "read_varint_ctx (fake_packet_ctx 4096 [0x81, 0x06, 0x63]) 0 = map_err (read_varint [0x81, 0x06, 0x63]) XDP_DROP"
  using varint_parsers_agree [OF fake_packet_ctx [of 4096 "[0x81, 0x06, 0x63]"], of 0]
  by (simp add: headroom_def)

text \<open>
  C27: the two sets of header parsers, Ethernet, IPv4 and TCP, accept the same IPv4 frames, but for
  what only the XDP program refuses: an IHL under 20 bytes, a total length over 1500 and a
  fragment. The slice parsers leave the ethertype to their caller, \<open>check_header\<close> refuses all
  but IPv4.
\<close>

theorem header_parsers_accept_same:
  assumes "header_layout N" and "packet_ctx ctx bs"
  shows "check_header N ctx = Inr () \<and> (\<exists>p. ipv4_try_parse N ctx = Inr p) \<and> (\<exists>t. tcp_try_parse N ctx = Inr t) \<longleftrightarrow>
    (\<exists>eth ip seg. parse_ethernet bs = Inr eth \<and> ef_ethertype eth = ETHERTYPE_IPV4 \<and>
       parse_ipv4 (ef_payload eth) = Inr ip \<and> parse_tcp (is_payload ip) = Inr seg) \<and>
    20 \<le> frame_ihl bs \<and> frame_tot_len bs \<le> 1500 \<and> \<not> frame_fragmented bs"
  unfolding slice_chain check_header_eq [OF assms] using packet_parsers_Inr [OF assms] by auto

theorem header_parsers_accept_same_witness:
  "check_header rfc_headers (fake_packet_ctx 4096 LOCALHOST_LOGIN_FRAME) = Inr () \<and>
   (\<exists>t. tcp_try_parse rfc_headers (fake_packet_ctx 4096 LOCALHOST_LOGIN_FRAME) = Inr t)"
proof -
  have "14 \<le> length LOCALHOST_LOGIN_FRAME \<and>
      u16_from_be_bytes [LOCALHOST_LOGIN_FRAME ! 12, LOCALHOST_LOGIN_FRAME ! 13] = 0x0800"
    by (simp add: LOCALHOST_LOGIN_FRAME_def u16_from_be_bytes_def)
  with header_parsers_accept_same [OF rfc_headers_layout localhost_frame_ctx] login_slice show ?thesis
    unfolding slice_chain by (simp add: localhost_frame_fields)
qed

text \<open>
  C28: where both accept a frame they report the same ports, flags and payload bytes.
\<close>

theorem header_parsers_same_result:
  assumes "header_layout N" and "packet_ctx ctx bs" and "tcp_try_parse N ctx = Inr t" and "slice_parse bs = Inr s"
  shows "tp_source_port t = ts_source_port s \<and> tp_destination_port t = ts_destination_port s \<and>
    is_fin (tp_flags t) = is_fin (ts_flags s) \<and> is_syn (tp_flags t) = is_syn (ts_flags s) \<and>
    is_rst (tp_flags t) = is_rst (ts_flags s) \<and> is_psh (tp_flags t) = is_psh (ts_flags s) \<and>
    is_ack (tp_flags t) = is_ack (ts_flags s) \<and>
    take (tp_payload_len t) (drop (tp_payload_offset t) bs) = ts_payload s"
proof -
  from assms(3,4) have t: "tcp_acceptable bs" "t = tcp_of_frame N bs" "s = segment_of_slice bs"
    by (simp_all add: tcp_try_parse_Inr [OF assms(1,2)] slice_parse_Inr_iff)
  then have "frame_tcp bs + 20 \<le> length bs" by (simp add: tcp_acceptable_def frame_tcp_def)
  from flags_of_frame [OF assms(1) this] show ?thesis
    unfolding t(2,3) by (simp add: tcp_of_frame_def segment_of_slice_def Let_def)
qed

theorem header_parsers_same_result_witness:
  "\<exists>t. tcp_try_parse rfc_headers (fake_packet_ctx 4096 LOCALHOST_LOGIN_FRAME) = Inr t \<and>
     tp_source_port t = ts_source_port (segment_of_slice LOCALHOST_LOGIN_FRAME)"
proof -
  have "tcp_try_parse rfc_headers (fake_packet_ctx 4096 LOCALHOST_LOGIN_FRAME) =
      Inr (tcp_of_frame rfc_headers LOCALHOST_LOGIN_FRAME)"
    unfolding tcp_try_parse_Inr [OF rfc_headers_layout localhost_frame_ctx]
    by (simp add: tcp_acceptable_def localhost_frame_fields)
  with header_parsers_same_result [OF rfc_headers_layout localhost_frame_ctx this login_slice]
  show ?thesis by blast
qed

text \<open>
  C25: on a handshake the slice parser accepts, the filter differs by its two size limits and
  nothing else: framed with its length and with any data behind it, a body that
  \<open>parse_handshake\<close> parses passes \<open>check_handshake\<close> if and only if it has at most 776 bytes
  and its address at most 765.
\<close>

theorem parsed_handshake_passes_check:
  assumes "parse_handshake body = Inr h" and "length body < 2 ^ 32"
    and "packet_ctx ctx (headers @ varint_encode (length body) @ body @ extra)" and "length headers \<le> 2000"
  shows "check_handshake ctx (length headers) (length (varint_encode (length body) @ body @ extra)) =
    (if length body \<le> 776 \<and> length (server_address h) \<le> 765 then Inr () else Inl (Throw XDP_DROP))"
  using check_handshake_eq [OF assms(3,4), of "length (varint_encode (length body) @ body @ extra)"]
    parsed_body_framed_iff [OF assms(1,2), of extra] by simp

theorem parsed_handshake_passes_check_witness:
  "check_handshake (fake_packet_ctx 4096 ([0xAA] @ varint_encode 16 @ localhost_login @ [1, 0])) 1 19 = Inr ()"
proof -
  have len: "length localhost_login = 16" by (simp add: localhost_login_def)
  have "packet_ctx (fake_packet_ctx 4096 ([0xAA] @ varint_encode (length localhost_login) @ localhost_login @ [1, 0]))
      ([0xAA] @ varint_encode (length localhost_login) @ localhost_login @ [1, 0])"
    by (rule fake_packet_ctx) (simp_all add: len varint_encode_small headroom_def)
  from parsed_handshake_passes_check [OF parse_localhost_login _ this] show ?thesis
    by (simp add: len varint_encode_small)
qed

text \<open>
  C26: what the filter accepts, the slice parser accepts too, but for the two differences the
  comment at the top of \<open>ebpf/minecraft.rs\<close> names: the address need not be UTF-8, and the next
  state may be 3.
\<close>

theorem checked_handshake_parses:
  assumes "packet_ctx ctx bs" and "off \<le> 2000" and "off + len \<le> length bs"
    and "check_handshake ctx off len = Inr ()"
  shows "\<exists>len_enc body rest. take len (drop off bs) = len_enc @ body @ rest \<and>
    varint len_enc (word_of_nat (length body)) \<and>
    ((\<exists>h. parse_handshake body = Inr h) \<or> parse_handshake body = Inl (Throw InvalidUtf8) \<or>
     parse_handshake body = Inl (Throw (InvalidNextState 3)))"
proof -
  from check_handshake_sound [OF assms] obtain e flen body rest protov addr port ns where
    d: "take len (drop off bs) = e @ body @ rest" "varint e flen" "unat flen = length body"
      "length body \<le> 776" "length addr \<le> 765" "handshake_body body protov addr port ns" "ns \<in> {1, 2, 3}"
    unfolding starts_with_handshake_def by blast
  have "flen = word_of_nat (length body)" by (simp flip: d(3))
  moreover have "(\<exists>h. parse_handshake body = Inr h) \<or> parse_handshake body = Inl (Throw InvalidUtf8) \<or>
      parse_handshake body = Inl (Throw (InvalidNextState 3))"
    unfolding parse_handshake_of_body [OF d(6,4,5)] using d(7) by (auto simp: next_state_of_def)
  ultimately show ?thesis using d(1,2) by blast
qed

theorem checked_handshake_parses_witness:
  "\<exists>len_enc body rest. localhost_login_wire = len_enc @ body @ rest \<and>
    varint len_enc (word_of_nat (length body)) \<and>
    ((\<exists>h. parse_handshake body = Inr h) \<or> parse_handshake body = Inl (Throw InvalidUtf8) \<or>
     parse_handshake body = Inl (Throw (InvalidNextState 3)))"
proof -
  have c: "check_handshake (fake_packet_ctx 4096 (localhost_login_wire @ [1, 0])) 0 17 = Inr ()"
    using check_handshake_eq [OF localhost_wire_ctx, of 0 17] localhost_wire_accepted [of "[]"]
    by (simp add: localhost_wire_length)
  from checked_handshake_parses [OF localhost_wire_ctx _ _ c] show ?thesis
    by (simp add: localhost_wire_length)
qed

section \<open>The repository's unit tests\<close>

text \<open>
  Every unit test of the crate passes on the model: those of \<open>networking/parser.rs\<close>,
  \<open>networking/net.rs\<close> and \<open>macros.rs\<close> as they are, also where a comment expects a failure; those of
  \<open>ethernet.rs\<close>, \<open>ipv4.rs\<close>, \<open>tcp.rs\<close> and \<open>ebpf/minecraft.rs\<close> wherever below 2 GiB the operating
  system maps the test packets.
\<close>

lemma slice_unit_tests_pass: "parser_suite \<and> net_suite"
  by (intro conjI parser_tests_pass net_tests_pass)

lemma packet_unit_tests_pass:
  assumes "header_layout N" and "knows_udp N" and "low_address p" and "low_address q"
  shows "header_suite N p q \<and> minecraft_suite N p"
  by (intro conjI header_tests_pass [OF assms] minecraft_tests_pass [OF assms(1,3)])

end
